theory Spec2Isabelle
  imports Complex_Main
begin

section \<open>Python values, exceptions and SQLite values\<close>

text \<open>
  The values the handlers move around are the JSON-like values that the external
  collaborators return: \<open>None\<close>, booleans, integers, floats, strings, lists and
  dictionaries with string keys. A finite float is kept as the rational it denotes
  (infinities and NaN are left out).
\<close>

datatype pyval =
    PNone
  | PBool bool
  | PInt int
  | PFloat rat
  | PStr string
  | PList "pyval list"
  | PDict "(string \<times> pyval) list"

text \<open>Python's truth test (\<open>if x\<close>, \<open>not x\<close>, \<open>x or y\<close>).\<close>

fun truthy :: "pyval \<Rightarrow> bool" where
  "truthy PNone = False"
| "truthy (PBool b) = b"
| "truthy (PInt i) = (i \<noteq> 0)"
| "truthy (PFloat r) = (r \<noteq> 0)"
| "truthy (PStr s) = (s \<noteq> [])"
| "truthy (PList xs) = (xs \<noteq> [])"
| "truthy (PDict kvs) = (kvs \<noteq> [])"

text \<open>\<open>isinstance(x, list)\<close> and hashability (what may be a dictionary key).\<close>

fun is_list :: "pyval \<Rightarrow> bool" where
  "is_list (PList xs) = True"
| "is_list v = False"

fun hashable :: "pyval \<Rightarrow> bool" where
  "hashable (PList xs) = False"
| "hashable (PDict kvs) = False"
| "hashable v = True"

text \<open>\<open>d.get(k, default)\<close> on a dictionary.\<close>

definition dict_get :: "(string \<times> pyval) list \<Rightarrow> string \<Rightarrow> pyval \<Rightarrow> pyval" where
  "dict_get kvs k dflt = (case map_of kvs k of None \<Rightarrow> dflt | Some v \<Rightarrow> v)"

text \<open>
  A plain Python exception is its class name and its message (\<open>str(e)\<close>); FastAPI's
  \<open>HTTPException\<close> carries a status code and a detail. The handlers tell the two apart
  with \<open>isinstance\<close> and \<open>except HTTPException\<close>.
\<close>

datatype pyerr = PyErr string string

fun err_str :: "pyerr \<Rightarrow> string" where
  "err_str (PyErr cls msg) = msg"

datatype exn = HTTPException nat string | Raised pyerr

definition database_is_locked :: pyerr where
  "database_is_locked = PyErr ''OperationalError'' ''database is locked''"

text \<open>
  What a column of the store holds: \<open>NULL\<close>, an integer, a float (finite, or an
  infinity: \<open>SqlInf True\<close> is the negative one) or a text. \<open>sqlite_bind\<close> is the
  binding of a Python parameter by the \<open>sqlite3\<close> module: \<open>None\<close>, \<open>int\<close> (with
  \<open>bool\<close>, its subclass), \<open>float\<close> and \<open>str\<close> are supported, an integer must
  fit 64 bits, and a list or a dictionary is refused.
\<close>

datatype sqlval = SqlNull | SqlInt int | SqlReal rat | SqlInf bool | SqlText string

fun sqlite_bind :: "pyval \<Rightarrow> pyerr + sqlval" where
  "sqlite_bind PNone = Inr SqlNull"
| "sqlite_bind (PBool b) = Inr (SqlInt (if b then 1 else 0))"
| "sqlite_bind (PInt i) =
     (if - (2 ^ 63) \<le> i \<and> i < 2 ^ 63 then Inr (SqlInt i)
      else Inl (PyErr ''OverflowError'' ''Python int too large to convert to SQLite INTEGER''))"
| "sqlite_bind (PFloat r) = Inr (SqlReal r)"
| "sqlite_bind (PStr s) = Inr (SqlText s)"
| "sqlite_bind (PList xs) = Inl (PyErr ''ProgrammingError'' ''Error binding parameter: type list is not supported'')"
| "sqlite_bind (PDict kvs) = Inl (PyErr ''ProgrammingError'' ''Error binding parameter: type dict is not supported'')"

text \<open>
  The columns of \<open>interview_answers\<close> are declared with a type (\<open>database.py\<close>,
  lines 52-62), which gives them an affinity: SQLite converts a value on its way into
  the column. \<open>score INTEGER\<close>: a text that is a numeric literal (optional white
  space around it, a sign, digits with an optional fraction and an optional exponent)
  becomes a number, an integer when the literal is an integer that fits 64 bits, else
  the float nearest to its value; and a float whose value is an integer strictly between
  \<open>-2^63\<close> and \<open>2^63\<close> becomes that integer. \<open>model_answer TEXT\<close>: a number
  becomes its text, a float in the format \<open>%!.15g\<close>. \<open>NULL\<close> and every other
  value are kept. The conversion of a literal to a float is taken to be correctly
  rounded (binary64, ties to even), the rounding to 15 digits to round half up.
\<close>

definition is_space :: "char \<Rightarrow> bool" where
  "is_space c = (c \<in> set [CHR 0x09, CHR 0x0A, CHR 0x0B, CHR 0x0C, CHR 0x0D, CHR 0x20])"

definition is_digit :: "char \<Rightarrow> bool" where
  "is_digit c = (c \<in> set ''0123456789'')"

definition digits_value :: "string \<Rightarrow> int" where
  "digits_value ds = foldl (\<lambda>n c. 10 * n + (of_char c - 48)) 0 ds"

definition pow :: "rat \<Rightarrow> int \<Rightarrow> rat" where
  "pow b k = (if 0 \<le> k then b ^ nat k else 1 / b ^ nat (- k))"

fun split_sign :: "string \<Rightarrow> bool \<times> string" where
  "split_sign [] = (False, [])"
| "split_sign (c # s) =
     (if c = CHR ''-'' then (True, s) else if c = CHR ''+'' then (False, s) else (False, c # s))"

fun split_fraction :: "string \<Rightarrow> bool \<times> string \<times> string" where
  "split_fraction [] = (False, [], [])"
| "split_fraction (c # s) =
     (if c = CHR ''.'' then (True, takeWhile is_digit s, dropWhile is_digit s) else (False, [], c # s))"

fun exponent_of :: "string \<Rightarrow> (bool \<times> int) option" where
  "exponent_of [] = Some (False, 0)"
| "exponent_of (c # s) =
     (if c = CHR ''e'' \<or> c = CHR ''E'' then
        (case split_sign s of
           (neg, ds) \<Rightarrow>
             (if ds \<noteq> [] \<and> list_all is_digit ds
              then Some (True, if neg then - digits_value ds else digits_value ds)
              else None))
      else None)"

definition numeric_literal :: "string \<Rightarrow> (bool \<times> rat) option" where
  "numeric_literal s =
     (case split_sign (rev (dropWhile is_space (rev (dropWhile is_space s)))) of
        (neg, s1) \<Rightarrow>
          (case split_fraction (dropWhile is_digit s1) of
             (dot, fp, s3) \<Rightarrow>
               (let ip = takeWhile is_digit s1 in
                case exponent_of s3 of
                  None \<Rightarrow> None
                | Some (ex, e) \<Rightarrow>
                    (if ip @ fp = [] then None
                     else Some (\<not> dot \<and> \<not> ex,
                            (if neg then - 1 else 1) * of_int (digits_value (ip @ fp))
                              * pow 10 (e - int (length fp)))))))"

text \<open>The float nearest to a rational: 53 bits, exponents from \<open>-1022\<close> to \<open>1023\<close>.\<close>

function bits :: "int \<Rightarrow> int" where
  "bits n = (if n \<le> 0 then 0 else 1 + bits (n div 2))"
  by pat_completeness auto
termination
  by (relation "measure nat") auto

definition binade :: "rat \<Rightarrow> int" where
  "binade a =
     (case quotient_of a of
        (n, d) \<Rightarrow> (let k = bits n - bits d in if pow 2 k \<le> a then k else k - 1))"

definition round_half_even :: "rat \<Rightarrow> int" where
  "round_half_even q =
     (let f = \<lfloor>q\<rfloor>; d = q - of_int f
      in if d < 1 / 2 then f else if 1 / 2 < d then f + 1 else if even f then f else f + 1)"

definition nearest_double :: "rat \<Rightarrow> rat option" where
  "nearest_double q =
     (if q = 0 then Some 0
      else (let a = \<bar>q\<bar>;
                t = max (binade a - 52) (- 1074);
                v = of_int (round_half_even (a / pow 2 t)) * pow 2 t
            in if 2 ^ 1024 \<le> v then None else Some (if q < 0 then - v else v)))"

text \<open>The affinity \<open>INTEGER\<close>.\<close>

definition integral_real :: "rat \<Rightarrow> sqlval" where
  "integral_real r =
     (if of_int \<lfloor>r\<rfloor> = r \<and> - (2 ^ 63) < r \<and> r < 2 ^ 63 then SqlInt \<lfloor>r\<rfloor> else SqlReal r)"

fun integer_affinity :: "sqlval \<Rightarrow> sqlval" where
  "integer_affinity (SqlReal r) = integral_real r"
| "integer_affinity (SqlText s) =
     (case numeric_literal s of
        None \<Rightarrow> SqlText s
      | Some (pure, q) \<Rightarrow>
          (if pure \<and> - (2 ^ 63) \<le> q \<and> q < 2 ^ 63 then SqlInt \<lfloor>q\<rfloor>
           else (case nearest_double q of
                   None \<Rightarrow> SqlInf (q < 0)
                 | Some r \<Rightarrow> integral_real r)))"
| "integer_affinity v = v"

text \<open>The affinity \<open>TEXT\<close>.\<close>

function digits_of :: "int \<Rightarrow> string" where
  "digits_of n =
     (if n < 10 then [char_of (48 + n)] else digits_of (n div 10) @ [char_of (48 + n mod 10)])"
  by pat_completeness auto
termination
  by (relation "measure nat") auto

definition int_text :: "int \<Rightarrow> string" where
  "int_text i = (if i < 0 then ''-'' @ digits_of (- i) else digits_of i)"

definition decade :: "rat \<Rightarrow> int" where
  "decade a =
     (case quotient_of a of
        (n, d) \<Rightarrow>
          (let k = int (length (digits_of n)) - int (length (digits_of d))
           in if pow 10 k \<le> a then k else k - 1))"

definition real_text :: "rat \<Rightarrow> string" where
  "real_text r =
     (if r = 0 then ''0.0''
      else (let a = \<bar>r\<bar>;
                e0 = decade a;
                n0 = \<lfloor>a / pow 10 (e0 - 14) + 1 / 2\<rfloor>;
                n = (if n0 = 10 ^ 15 then 10 ^ 14 else n0);
                e = (if n0 = 10 ^ 15 then e0 + 1 else e0);
                ds = rev (dropWhile (\<lambda>c. c = CHR ''0'') (rev (digits_of n)));
                x = \<bar>e\<bar>
            in (if r < 0 then ''-'' else [])
               @ (if e < - 4 \<or> 14 < e then
                    [hd ds] @ ''.'' @ (if tl ds = [] then ''0'' else tl ds) @ ''e''
                    @ (if e < 0 then ''-'' else ''+'') @ (if x < 10 then ''0'' else []) @ digits_of x
                  else if 0 \<le> e then
                    take (nat e + 1) (ds @ replicate 15 (CHR ''0'')) @ ''.''
                    @ (if drop (nat e + 1) ds = [] then ''0'' else drop (nat e + 1) ds)
                  else ''0.'' @ replicate (nat (- e - 1)) (CHR ''0'') @ ds)))"

fun text_affinity :: "sqlval \<Rightarrow> sqlval" where
  "text_affinity (SqlInt i) = SqlText (int_text i)"
| "text_affinity (SqlReal r) = SqlText (real_text r)"
| "text_affinity (SqlInf neg) = SqlText (if neg then ''-Inf'' else ''Inf'')"
| "text_affinity v = v"

section \<open>The store, the file system and the outside world\<close>

text \<open>
  The two tables of \<open>database.py\<close> (\<open>init_database\<close>), without the timestamps.
  \<open>id\<close> is the primary key of both tables; the foreign key of
  \<open>interview_answers.session_id\<close> is declared but \<open>get_db_connection\<close> never
  switches foreign keys on, so no statement checks it.
\<close>

record session_row =
  s_id :: string
  job_description :: string
  resume_text :: string
  duration_seconds :: int
  questions :: string
  status :: string

record answer_row =
  a_id :: string
  session_id :: string
  question_id :: string
  audio_path :: "string option"
  transcript :: "string option"
  score :: sqlval
  feedback :: "string option"
  model_answer :: sqlval

text \<open>
  Everything a handler does to the outside is an event of the trace, with its outcome:
  statements of the store (\<open>True\<close>: the statement raised \<open>database is locked\<close>),
  file operations (\<open>True\<close>: the operation raised \<open>OSError\<close>), calls of the external
  collaborators, and \<open>time.sleep\<close>.
\<close>

datatype stmt =
    SelectSession string
  | SelectAnswers string
  | UpdateEvaluation string
  | UpdateStatus string string
  | SelectAnswerId string string
  | UpdateAudio string
  | InsertAnswer string
  | Commit

datatype fsop =
    Makedirs
  | OpenWrite string
  | WriteBytes string
  | Remove string
  | Move string string

datatype event =
    DbConnect
  | Db stmt bool
  | DbRollback
  | Fs fsop bool
  | Sleep rat
  | Generate string pyval string string "pyerr + string"
  | Evaluate pyval string string "pyerr + pyval"
  | Transcribe string "pyerr + string"
  | Uuid4 string

text \<open>
  The outside world: the services under \<open>backend/services\<close> (not part of the
  sources), the standard library's \<open>json\<close> and \<open>uuid\<close>, and the faults of the store
  and of the file system. What the outside answers may depend on everything that
  happened before (the trace).
\<close>

record env =
  store_busy :: "event list \<Rightarrow> stmt \<Rightarrow> bool"
  fs_fails :: "event list \<Rightarrow> fsop \<Rightarrow> bool"
  generate_reference_answer :: "event list \<Rightarrow> pyval \<Rightarrow> string \<Rightarrow> string \<Rightarrow> pyerr + string"
  evaluate_answer :: "event list \<Rightarrow> pyval \<Rightarrow> string \<Rightarrow> string \<Rightarrow> pyerr + pyval"
  transcribe_audio :: "event list \<Rightarrow> string \<Rightarrow> pyerr + string"
  uuid4 :: "event list \<Rightarrow> string"
  json_loads :: "string \<Rightarrow> pyerr + pyval"
  json_dumps :: "pyval \<Rightarrow> string"

record world =
  sessions :: "session_row list"
  answers :: "answer_row list"
  files :: "string \<rightharpoonup> string"
  trace :: "event list"

definition emit :: "event \<Rightarrow> world \<Rightarrow> world" where
  "emit e w = w\<lparr>trace := trace w @ [e]\<rparr>"

text \<open>
  \<open>cursor.execute\<close> and \<open>conn.commit\<close>: the statement is logged with its outcome;
  \<open>True\<close> means it raised \<open>sqlite3.OperationalError\<close>.
\<close>

definition db_exec :: "env \<Rightarrow> stmt \<Rightarrow> world \<Rightarrow> bool \<times> world" where
  "db_exec env q w =
     (let busy = store_busy env (trace w) q in (busy, emit (Db q busy) w))"

definition rollback :: "world \<Rightarrow> world \<Rightarrow> world" where
  "rollback w0 w = w\<lparr>sessions := sessions w0, answers := answers w0\<rparr>"

text \<open>
  \<open>get_db\<close> (database.py): the body runs on a new connection; when it returns the
  transaction is committed, when it (or the commit) raises the transaction is rolled
  back and the exception goes on.
\<close>

definition get_db :: "env \<Rightarrow> (world \<Rightarrow> (exn + 'a) \<times> world) \<Rightarrow> world \<Rightarrow> (exn + 'a) \<times> world" where
  "get_db env body w0 =
     (case body (emit DbConnect w0) of
        (Inl e, w1) \<Rightarrow> (Inl e, emit DbRollback (rollback w0 w1))
      | (Inr r, w1) \<Rightarrow>
          (case db_exec env Commit w1 of
             (True, w2) \<Rightarrow> (Inl (Raised database_is_locked), emit DbRollback (rollback w0 w2))
           | (False, w2) \<Rightarrow> (Inr r, w2)))"

text \<open>\<open>UPDATE interview_sessions SET status = ? WHERE id = ?\<close>\<close>

definition set_status :: "string \<Rightarrow> string \<Rightarrow> session_row list \<Rightarrow> session_row list" where
  "set_status sid st rows = map (\<lambda>s. if s_id s = sid then s\<lparr>status := st\<rparr> else s) rows"

definition update_status :: "env \<Rightarrow> string \<Rightarrow> string \<Rightarrow> world \<Rightarrow> (exn + unit) \<times> world" where
  "update_status env sid st w =
     (case db_exec env (UpdateStatus sid st) w of
        (True, w1) \<Rightarrow> (Inl (Raised database_is_locked), w1)
      | (False, w1) \<Rightarrow> (Inr (), w1\<lparr>sessions := set_status sid st (sessions w1)\<rparr>))"

section \<open>routes/analyze.py: analyze_session\<close>

text \<open>Lines 42-43: the \<open>questions\<close> column is decoded when it is a non-empty string.\<close>

definition parse_questions :: "env \<Rightarrow> string \<Rightarrow> pyerr + pyval" where
  "parse_questions env qs = (if qs \<noteq> [] then json_loads env qs else Inr (PStr qs))"

text \<open>
  Lines 55-66: \<open>session.get("job_description") or session.get("jd") or
  session.get("jd_text") or ""\<close>. The row has no column \<open>jd\<close>, \<open>jd_text\<close>,
  \<open>resume\<close> or \<open>resume_content\<close>, so those lookups give \<open>None\<close>.
\<close>

definition py_or_str :: "string \<Rightarrow> string \<Rightarrow> string" where
  "py_or_str a b = (if a \<noteq> [] then a else b)"

definition jd_text_of :: "session_row \<Rightarrow> string" where
  "jd_text_of s = py_or_str (job_description s) ''''"

definition resume_text_of :: "session_row \<Rightarrow> string" where
  "resume_text_of s = py_or_str (resume_text s) ''''"

text \<open>
  Line 79: \<open>{q["id"]: q.get("text", "") for q in session["questions"]}\<close>. Only a list
  can be walked here without an exception at its first element; every element must be
  a dictionary with a hashable \<open>id\<close>. A later question with the same id replaces an
  earlier one. (The map compares keys as values; Python also identifies \<open>1\<close>,
  \<open>1.0\<close> and \<open>True\<close>, which no lookup by a string can tell.)
\<close>

fun q_text_of_list :: "pyval list \<Rightarrow> (pyval \<rightharpoonup> pyval) \<Rightarrow> pyerr + (pyval \<rightharpoonup> pyval)" where
  "q_text_of_list [] m = Inr m"
| "q_text_of_list (PDict kvs # qs) m =
     (case map_of kvs ''id'' of
        None \<Rightarrow> Inl (PyErr ''KeyError'' ''id'')
      | Some k \<Rightarrow>
          (if hashable k then q_text_of_list qs (m(k \<mapsto> dict_get kvs ''text'' (PStr '''')))
           else Inl (PyErr ''TypeError'' ''unhashable type'')))"
| "q_text_of_list (q # qs) m = Inl (PyErr ''TypeError'' ''question is not subscriptable by a string'')"

fun q_text_by_id_of :: "pyval \<Rightarrow> pyerr + (pyval \<rightharpoonup> pyval)" where
  "q_text_by_id_of (PList qs) = q_text_of_list qs Map.empty"
| "q_text_by_id_of v = Inl (PyErr ''TypeError'' ''questions is not a list of dictionaries'')"

text \<open>
  Lines 95-107: the reference answer of a question id, from the cache or generated and
  then cached. When the generator raises, nothing is stored in the cache.
\<close>

definition get_reference ::
  "env \<Rightarrow> string \<Rightarrow> pyval \<Rightarrow> string \<Rightarrow> string \<Rightarrow> (string \<rightharpoonup> string) \<Rightarrow> world
     \<Rightarrow> (pyerr + string) \<times> (string \<rightharpoonup> string) \<times> world" where
  "get_reference env qid question_text jd resume cache w =
     (case cache qid of
        Some r \<Rightarrow> (Inr r, cache, w)
      | None \<Rightarrow>
          (let res = generate_reference_answer env (trace w) question_text jd resume;
               w1 = emit (Generate qid question_text jd resume res) w
           in case res of
                Inl e \<Rightarrow> (Inl e, cache, w1)
              | Inr r \<Rightarrow> (Inr r, cache(qid \<mapsto> r), w1)))"

text \<open>Lines 121-132: what is persisted, from the evaluator's dictionary.\<close>

definition derive_score :: "(string \<times> pyval) list \<Rightarrow> pyval" where
  "derive_score evaluation =
     (let sc = dict_get evaluation ''total_score'' PNone
      in if sc = PNone then dict_get evaluation ''score'' PNone else sc)"

definition derive_feedback :: "(string \<times> pyval) list \<Rightarrow> pyval" where
  "derive_feedback evaluation =
     (let fb = dict_get evaluation ''feedback'' (PList [])
      in if is_list fb then fb else (if truthy fb then PList [fb] else PList []))"

definition derive_model_answer :: "string \<Rightarrow> (string \<times> pyval) list \<Rightarrow> pyval" where
  "derive_model_answer reference_answer evaluation =
     (if reference_answer \<noteq> [] then PStr reference_answer
      else dict_get evaluation ''model_answer'' (PStr ''''))"

text \<open>
  \<open>UPDATE interview_answers SET score = ?, feedback = ?, model_answer = ? WHERE id = ?\<close>,
  with the values that the columns hold after the statement.
\<close>

definition set_evaluation :: "string \<Rightarrow> sqlval \<Rightarrow> string \<Rightarrow> sqlval \<Rightarrow> answer_row list \<Rightarrow> answer_row list" where
  "set_evaluation aid sc fb ma rows =
     map (\<lambda>a. if a_id a = aid then a\<lparr>score := sc, feedback := Some fb, model_answer := ma\<rparr> else a) rows"

text \<open>
  Lines 110-148: the evaluator is called; a result that is not a dictionary, a parameter
  the store cannot bind and a failing statement are all caught by the handler of this
  answer, which goes on to the next answer. The score goes into a column \<open>INTEGER\<close>,
  the model answer into a column \<open>TEXT\<close>; the feedback is a text already.
\<close>

definition store_evaluation :: "env \<Rightarrow> answer_row \<Rightarrow> string \<Rightarrow> pyval \<Rightarrow> world \<Rightarrow> world" where
  "store_evaluation env answer reference_answer evaluation w =
     (case evaluation of
        PDict kvs \<Rightarrow>
          (case sqlite_bind (derive_score kvs) of
             Inl e \<Rightarrow> w
           | Inr sc \<Rightarrow>
               (case sqlite_bind (derive_model_answer reference_answer kvs) of
                  Inl e \<Rightarrow> w
                | Inr ma \<Rightarrow>
                    (case db_exec env (UpdateEvaluation (a_id answer)) w of
                       (True, w1) \<Rightarrow> w1
                     | (False, w1) \<Rightarrow>
                         w1\<lparr>answers :=
                              set_evaluation (a_id answer) (integer_affinity sc)
                                (json_dumps env (derive_feedback kvs)) (text_affinity ma) (answers w1)\<rparr>)))
      | _ \<Rightarrow> w)"

definition transcript_of :: "answer_row \<Rightarrow> string" where
  "transcript_of a = (case transcript a of None \<Rightarrow> [] | Some t \<Rightarrow> t)"

definition evaluate_and_store :: "env \<Rightarrow> pyval \<Rightarrow> answer_row \<Rightarrow> string \<Rightarrow> world \<Rightarrow> world" where
  "evaluate_and_store env question_text answer reference_answer w =
     (let tr = transcript_of answer;
          res = evaluate_answer env (trace w) question_text tr reference_answer;
          w1 = emit (Evaluate question_text tr reference_answer res) w
      in case res of
           Inl e \<Rightarrow> w1
         | Inr evaluation \<Rightarrow> store_evaluation env answer reference_answer evaluation w1)"

text \<open>
  Lines 82-92: an answer is skipped when it has a score, when its transcript is
  \<open>NULL\<close> or empty, or when its question id has no (truthy) text in the session.
\<close>

definition has_transcript :: "answer_row \<Rightarrow> bool" where
  "has_transcript a = (transcript_of a \<noteq> [])"

definition question_text_of :: "(pyval \<rightharpoonup> pyval) \<Rightarrow> answer_row \<Rightarrow> pyval" where
  "question_text_of q_text_by_id a =
     (case q_text_by_id (PStr (question_id a)) of None \<Rightarrow> PStr '''' | Some t \<Rightarrow> t)"

definition eligible :: "(pyval \<rightharpoonup> pyval) \<Rightarrow> answer_row \<Rightarrow> bool" where
  "eligible q_text_by_id a =
     (score a = SqlNull \<and> has_transcript a \<and> truthy (question_text_of q_text_by_id a))"

definition process_answer ::
  "env \<Rightarrow> (pyval \<rightharpoonup> pyval) \<Rightarrow> string \<Rightarrow> string \<Rightarrow> answer_row \<Rightarrow> (string \<rightharpoonup> string) \<Rightarrow> world
     \<Rightarrow> (string \<rightharpoonup> string) \<times> world" where
  "process_answer env q_text_by_id jd resume answer cache w =
     (if eligible q_text_by_id answer then
        (case get_reference env (question_id answer) (question_text_of q_text_by_id answer)
                jd resume cache w of
           (Inl e, cache1, w1) \<Rightarrow> (cache1, w1)
         | (Inr reference_answer, cache1, w1) \<Rightarrow>
             (cache1, evaluate_and_store env (question_text_of q_text_by_id answer) answer
                        reference_answer w1))
      else (cache, w))"

fun process_answers ::
  "env \<Rightarrow> (pyval \<rightharpoonup> pyval) \<Rightarrow> string \<Rightarrow> string \<Rightarrow> answer_row list \<Rightarrow> (string \<rightharpoonup> string) \<Rightarrow> world
     \<Rightarrow> (string \<rightharpoonup> string) \<times> world" where
  "process_answers env q_text_by_id jd resume [] cache w = (cache, w)"
| "process_answers env q_text_by_id jd resume (answer # rest) cache w =
     (case process_answer env q_text_by_id jd resume answer cache w of
        (cache1, w1) \<Rightarrow> process_answers env q_text_by_id jd resume rest cache1 w1)"

text \<open>Lines 68-155: the session has questions.\<close>

definition analyze_answers :: "env \<Rightarrow> string \<Rightarrow> session_row \<Rightarrow> pyval \<Rightarrow> world \<Rightarrow> (exn + unit) \<times> world" where
  "analyze_answers env sid session qs w =
     (case db_exec env (SelectAnswers sid) w of
        (True, w1) \<Rightarrow> (Inl (Raised database_is_locked), w1)
      | (False, w1) \<Rightarrow>
          (case q_text_by_id_of qs of
             Inl e \<Rightarrow> (Inl (Raised e), w1)
           | Inr q_text_by_id \<Rightarrow>
               (case process_answers env q_text_by_id (jd_text_of session) (resume_text_of session)
                       (filter (\<lambda>a. session_id a = sid) (answers w1)) Map.empty w1 of
                  (cache, w2) \<Rightarrow> update_status env sid ''analyzed'' w2)))"

text \<open>Lines 28-155: the body of the \<open>with get_db()\<close> block.\<close>

definition analyze_txn :: "env \<Rightarrow> string \<Rightarrow> world \<Rightarrow> (exn + unit) \<times> world" where
  "analyze_txn env sid w =
     (case db_exec env (SelectSession sid) w of
        (True, w1) \<Rightarrow> (Inl (Raised database_is_locked), w1)
      | (False, w1) \<Rightarrow>
          (case find (\<lambda>s. s_id s = sid) (sessions w1) of
             None \<Rightarrow> (Inl (HTTPException 404 ''Session not found''), w1)
           | Some session \<Rightarrow>
               (case parse_questions env (questions session) of
                  Inl e \<Rightarrow> (Inl (Raised e), w1)
                | Inr qs \<Rightarrow>
                    (if truthy qs then analyze_answers env sid session qs w1
                     else update_status env sid ''analyzed'' w1))))"

text \<open>
  Lines 22-174: the retry loop around the transaction. Every exception of the body,
  an \<open>HTTPException\<close> too, is counted as a failed attempt.
\<close>

definition max_db_retries :: nat where
  "max_db_retries = 3"

definition analysis_complete :: "string \<times> string" where
  "analysis_complete = (''success'', ''Analysis complete'')"

function analyze_retry :: "env \<Rightarrow> string \<Rightarrow> nat \<Rightarrow> world \<Rightarrow> (exn + string \<times> string) \<times> world" where
  "analyze_retry env sid retry_count w =
     (if retry_count < max_db_retries then
        (case get_db env (analyze_txn env sid) w of
           (Inr u, w1) \<Rightarrow> (Inr analysis_complete, w1)
         | (Inl db_error, w1) \<Rightarrow>
             (if max_db_retries \<le> retry_count + 1 then
                (case db_error of
                   HTTPException code detail \<Rightarrow> (Inl db_error, w1)
                 | Raised e \<Rightarrow>
                     (Inl (HTTPException 500
                        (''Database error during analysis after 3 retries: '' @ err_str e)), w1))
              else analyze_retry env sid (retry_count + 1)
                     (emit (Sleep (2 / 10 * of_nat (retry_count + 1))) w1)))
      else (Inl (HTTPException 500 ''Analysis failed after retries''), w))"
  by pat_completeness auto
termination
  by (relation "measure (\<lambda>(env, sid, retry_count, w). max_db_retries - retry_count)") auto

definition analyze_session :: "env \<Rightarrow> string \<Rightarrow> world \<Rightarrow> (exn + string \<times> string) \<times> world" where
  "analyze_session env sid w = analyze_retry env sid 0 w"

section \<open>routes/upload.py: upload_answer\<close>

text \<open>
  Line 35: \<open>audio.filename.split(".")[-1] if "." in audio.filename else "webm"\<close>.
\<close>

definition after_last_dot :: "string \<Rightarrow> string" where
  "after_last_dot s = rev (takeWhile (\<lambda>c. c \<noteq> CHR ''.'') (rev s))"

definition file_extension :: "string \<Rightarrow> string" where
  "file_extension name = (if CHR ''.'' \<in> set name then after_last_dot name else ''webm'')"

text \<open>
  File operations: logged with their outcome; \<open>True\<close> means the operation raised
  \<open>OSError\<close>. A path of the model is the path below the project root.
\<close>

definition fs_do :: "env \<Rightarrow> fsop \<Rightarrow> world \<Rightarrow> bool \<times> world" where
  "fs_do env op w =
     (let failed = fs_fails env (trace w) op in (failed, emit (Fs op failed) w))"

definition os_error :: pyerr where
  "os_error = PyErr ''OSError'' ''file operation failed''"

definition save_failed :: exn where
  "save_failed = HTTPException 500 (''Failed to save audio file: '' @ err_str os_error)"

text \<open>
  Lines 42-55: the bytes are written to the temporary file, a file that is already at
  the final path is removed, and the temporary file is moved there. An \<open>OSError\<close> of
  any of these steps is turned into an \<open>HTTPException\<close>.
\<close>

definition move_into_place :: "env \<Rightarrow> string \<Rightarrow> string \<Rightarrow> world \<Rightarrow> (exn + unit) \<times> world" where
  "move_into_place env temp_file_path file_path w =
     (case fs_do env (Move temp_file_path file_path) w of
        (True, w1) \<Rightarrow> (Inl save_failed, w1)
      | (False, w1) \<Rightarrow>
          (Inr (), w1\<lparr>files := (files w1)(file_path := files w1 temp_file_path, temp_file_path := None)\<rparr>))"

definition save_audio :: "env \<Rightarrow> string \<Rightarrow> string \<Rightarrow> string \<Rightarrow> world \<Rightarrow> (exn + unit) \<times> world" where
  "save_audio env temp_file_path file_path content w =
     (case fs_do env (OpenWrite temp_file_path) w of
        (True, w1) \<Rightarrow> (Inl save_failed, w1)
      | (False, w1) \<Rightarrow>
          (case fs_do env (WriteBytes temp_file_path) (w1\<lparr>files := (files w1)(temp_file_path \<mapsto> [])\<rparr>) of
             (True, w2) \<Rightarrow> (Inl save_failed, w2)
           | (False, w2) \<Rightarrow>
               (let w3 = w2\<lparr>files := (files w2)(temp_file_path \<mapsto> content)\<rparr>
                in case files w3 file_path of
                     None \<Rightarrow> move_into_place env temp_file_path file_path w3
                   | Some old \<Rightarrow>
                       (case fs_do env (Remove file_path) w3 of
                          (True, w4) \<Rightarrow> (Inl save_failed, w4)
                        | (False, w4) \<Rightarrow>
                            move_into_place env temp_file_path file_path
                              (w4\<lparr>files := (files w4)(file_path := None)\<rparr>)))))"

text \<open>Lines 58-63: a failing transcription gives the empty transcript.\<close>

definition transcribe :: "env \<Rightarrow> string \<Rightarrow> world \<Rightarrow> string \<times> world" where
  "transcribe env file_path w =
     (let res = transcribe_audio env (trace w) file_path
      in (case res of Inl e \<Rightarrow> [] | Inr t \<Rightarrow> t, emit (Transcribe file_path res) w))"

text \<open>
  \<open>UPDATE interview_answers SET audio_path = ?, transcript = ? WHERE id = ?\<close> and the
  row of the \<open>INSERT\<close> (the columns it does not name are \<open>NULL\<close>).
\<close>

definition set_audio :: "string \<Rightarrow> string \<Rightarrow> string \<Rightarrow> answer_row list \<Rightarrow> answer_row list" where
  "set_audio aid path tr rows =
     map (\<lambda>a. if a_id a = aid then a\<lparr>audio_path := Some path, transcript := Some tr\<rparr> else a) rows"

definition new_answer :: "string \<Rightarrow> string \<Rightarrow> string \<Rightarrow> string \<Rightarrow> string \<Rightarrow> answer_row" where
  "new_answer aid sid qid path tr =
     \<lparr>a_id = aid, session_id = sid, question_id = qid, audio_path = Some path,
      transcript = Some tr, score = SqlNull, feedback = None, model_answer = SqlNull\<rparr>"

definition unique_failed :: pyerr where
  "unique_failed = PyErr ''IntegrityError'' ''UNIQUE constraint failed: interview_answers.id''"

text \<open>
  Lines 75-105: the body of the \<open>with get_db()\<close> block. The \<open>INSERT\<close> is refused
  when the new id is already a primary key of the table; no statement looks at the
  sessions but the final \<open>UPDATE\<close>, which changes the rows with the given id, if any.
\<close>

definition insert_answer :: "env \<Rightarrow> string \<Rightarrow> string \<Rightarrow> string \<Rightarrow> string \<Rightarrow> world \<Rightarrow> (exn + unit) \<times> world" where
  "insert_answer env sid qid path tr w =
     (let answer_id = uuid4 env (trace w); w1 = emit (Uuid4 answer_id) w
      in case db_exec env (InsertAnswer answer_id) w1 of
           (True, w2) \<Rightarrow> (Inl (Raised database_is_locked), w2)
         | (False, w2) \<Rightarrow>
             (if answer_id \<in> a_id ` set (answers w2) then (Inl (Raised unique_failed), w2)
              else (Inr (), w2\<lparr>answers := answers w2 @ [new_answer answer_id sid qid path tr]\<rparr>)))"

definition update_answer :: "env \<Rightarrow> string \<Rightarrow> string \<Rightarrow> string \<Rightarrow> world \<Rightarrow> (exn + unit) \<times> world" where
  "update_answer env aid path tr w =
     (case db_exec env (UpdateAudio aid) w of
        (True, w1) \<Rightarrow> (Inl (Raised database_is_locked), w1)
      | (False, w1) \<Rightarrow> (Inr (), w1\<lparr>answers := set_audio aid path tr (answers w1)\<rparr>))"

definition upload_txn :: "env \<Rightarrow> string \<Rightarrow> string \<Rightarrow> string \<Rightarrow> string \<Rightarrow> world \<Rightarrow> (exn + unit) \<times> world" where
  "upload_txn env sid qid path tr w =
     (case db_exec env (SelectAnswerId sid qid) w of
        (True, w1) \<Rightarrow> (Inl (Raised database_is_locked), w1)
      | (False, w1) \<Rightarrow>
          (case (case find (\<lambda>a. session_id a = sid \<and> question_id a = qid) (answers w1) of
                   Some existing \<Rightarrow> update_answer env (a_id existing) path tr w1
                 | None \<Rightarrow> insert_answer env sid qid path tr w1) of
             (Inl e, w2) \<Rightarrow> (Inl e, w2)
           | (Inr u, w2) \<Rightarrow> update_status env sid ''in_progress'' w2))"

text \<open>
  \<open>str(e)\<close> of an exception. For an \<open>HTTPException\<close> this is Starlette's rendering,
  \<open>"{status_code}: {detail}"\<close>; no transaction of \<open>upload_answer\<close> raises one.
\<close>

fun decimal :: "nat \<Rightarrow> string" where
  "decimal n =
     (if n < 10 then [char_of (48 + n)] else decimal (n div 10) @ [char_of (48 + n mod 10)])"

fun exn_str :: "exn \<Rightarrow> string" where
  "exn_str (Raised e) = err_str e"
| "exn_str (HTTPException code detail) = decimal code @ '': '' @ detail"

text \<open>Lines 69-118: the retry loop around the transaction.\<close>

definition max_retries :: nat where
  "max_retries = 3"

function upload_db_retry ::
  "env \<Rightarrow> string \<Rightarrow> string \<Rightarrow> string \<Rightarrow> string \<Rightarrow> nat \<Rightarrow> world \<Rightarrow> (exn + unit) \<times> world" where
  "upload_db_retry env sid qid path tr retry_count w =
     (if retry_count < max_retries then
        (case get_db env (upload_txn env sid qid path tr) w of
           (Inr u, w1) \<Rightarrow> (Inr (), w1)
         | (Inl db_error, w1) \<Rightarrow>
             (if max_retries \<le> retry_count + 1 then
                (Inl (HTTPException 500 (''Database error after 3 retries: '' @ exn_str db_error)), w1)
              else upload_db_retry env sid qid path tr (retry_count + 1)
                     (emit (Sleep (1 / 10 * of_nat (retry_count + 1))) w1)))
      else (Inr (), w))"
  by pat_completeness auto
termination
  by (relation "measure (\<lambda>(env, sid, qid, path, tr, retry_count, w). max_retries - retry_count)") auto

text \<open>
  Lines 25-123: the body of the outer \<open>try\<close>. Beside its result it gives the values
  of \<open>temp_file_path\<close> and \<open>file_path\<close> at the moment it ends, which the handler of
  lines 127-139 reads.
\<close>

definition store_upload ::
  "env \<Rightarrow> string \<Rightarrow> string \<Rightarrow> string \<Rightarrow> world
     \<Rightarrow> (exn + string \<times> string) \<times> (string option \<times> string option) \<times> world" where
  "store_upload env sid qid file_path w =
     (case transcribe env file_path w of
        (tr, w1) \<Rightarrow>
          (case upload_db_retry env sid qid file_path tr 0 w1 of
             (Inl e, w2) \<Rightarrow> (Inl e, (None, Some file_path), w2)
           | (Inr u, w2) \<Rightarrow> (Inr (tr, file_path), (None, Some file_path), w2)))"

definition upload_body ::
  "env \<Rightarrow> string \<Rightarrow> string \<Rightarrow> string option \<Rightarrow> string \<Rightarrow> world
     \<Rightarrow> (exn + string \<times> string) \<times> (string option \<times> string option) \<times> world" where
  "upload_body env sid qid filename content w =
     (case fs_do env Makedirs w of
        (True, w1) \<Rightarrow> (Inl (Raised os_error), (None, None), w1)
      | (False, w1) \<Rightarrow>
          (if content = [] then (Inl (HTTPException 400 ''Empty audio file received''), (None, None), w1)
           else
             (case filename of
                None \<Rightarrow> (Inl (Raised (PyErr ''TypeError'' ''argument of type NoneType is not iterable'')),
                          (None, None), w1)
              | Some name \<Rightarrow>
                  (let u = uuid4 env (trace w1);
                       w2 = emit (Uuid4 u) w1;
                       file_path = ''uploads/'' @ u @ ''.'' @ file_extension name;
                       temp_file_path = file_path @ ''.tmp''
                   in case save_audio env temp_file_path file_path content w2 of
                        (Inl e, w3) \<Rightarrow> (Inl e, (Some temp_file_path, Some file_path), w3)
                      | (Inr u, w3) \<Rightarrow> store_upload env sid qid file_path w3))))"

text \<open>Lines 129-138: each file that is set and exists is removed; a failure is passed over.\<close>

definition remove_quietly :: "env \<Rightarrow> string option \<Rightarrow> world \<Rightarrow> world" where
  "remove_quietly env p w =
     (case p of
        None \<Rightarrow> w
      | Some path \<Rightarrow>
          (case files w path of
             None \<Rightarrow> w
           | Some bytes \<Rightarrow>
               (case fs_do env (Remove path) w of
                  (True, w1) \<Rightarrow> w1
                | (False, w1) \<Rightarrow> w1\<lparr>files := (files w1)(path := None)\<rparr>)))"

text \<open>
  Lines 125-139: an \<open>HTTPException\<close> is raised again as it is; only another exception
  reaches the clean-up.
\<close>

definition upload_answer ::
  "env \<Rightarrow> string \<Rightarrow> string \<Rightarrow> string option \<Rightarrow> string \<Rightarrow> world \<Rightarrow> (exn + string \<times> string) \<times> world" where
  "upload_answer env sid qid filename content w =
     (case upload_body env sid qid filename content w of
        (Inr r, vars, w1) \<Rightarrow> (Inr r, w1)
      | (Inl (HTTPException code detail), vars, w1) \<Rightarrow> (Inl (HTTPException code detail), w1)
      | (Inl (Raised e), (temp_file_path, file_path), w1) \<Rightarrow>
          (Inl (HTTPException 500 (''Upload failed: '' @ err_str e)),
           remove_quietly env file_path (remove_quietly env temp_file_path w1)))"

section \<open>Notions of the specification\<close>

definition attempts :: "event list \<Rightarrow> nat" where
  "attempts tr = length (filter (\<lambda>e. e = DbConnect) tr)"

fun sleep_of :: "event \<Rightarrow> rat list" where
  "sleep_of (Sleep d) = [d]"
| "sleep_of e = []"

definition sleeps :: "event list \<Rightarrow> rat list" where
  "sleeps tr = concat (map sleep_of tr)"

fun txn_event :: "event \<Rightarrow> bool" where
  "txn_event (Db q b) = True"
| "txn_event (Generate qid q jd r res) = True"
| "txn_event (Evaluate q t r res) = True"
| "txn_event (Uuid4 u) = True"
| "txn_event e = False"

definition extends :: "world \<Rightarrow> world \<Rightarrow> bool" where
  "extends w w' = (\<exists>evs. trace w' = trace w @ evs \<and> list_all txn_event evs)"

text \<open>
  The order of the specification's \<open>created \<rightarrow> in_progress \<rightarrow> analyzed\<close> (a status the
  handlers never write counts as the start).
\<close>

definition status_rank :: "string \<Rightarrow> nat" where
  "status_rank st = (if st = ''analyzed'' then 2 else if st = ''in_progress'' then 1 else 0)"

fun is_move :: "fsop \<Rightarrow> bool" where
  "is_move (Move a b) = True"
| "is_move op = False"






text \<open>
  The outcomes of the calls of the reference generator for one question id, in the order
  of the trace; and the shape the cache gives them: a call is followed by another call
  for the same id only when it failed.
\<close>

fun outcome_for :: "string \<Rightarrow> event \<Rightarrow> (pyerr + string) list" where
  "outcome_for qid (Generate q question jd resume res) = (if q = qid then [res] else [])"
| "outcome_for qid e = []"

definition gen_outcomes :: "string \<Rightarrow> event list \<Rightarrow> (pyerr + string) list" where
  "gen_outcomes qid tr = concat (map (outcome_for qid) tr)"

fun retried_only_after_failure :: "(pyerr + string) list \<Rightarrow> bool" where
  "retried_only_after_failure [] = True"
| "retried_only_after_failure [r] = True"
| "retried_only_after_failure (r # r' # rs) = (isl r \<and> retried_only_after_failure (r' # rs))"

text \<open>
  The events of a call: what it appended to the trace. A call is refused throughout when
  no commit of it went through and each of its rollbacks directly follows a statement
  that the store refused with \<open>database is locked\<close>: every attempt it made failed
  with store contention.
\<close>

definition call_events :: "world \<Rightarrow> world \<Rightarrow> event list" where
  "call_events w w' = drop (length (trace w)) (trace w')"

fun is_refusal :: "event \<Rightarrow> bool" where
  "is_refusal (Db q busy) = busy"
| "is_refusal e = False"

fun contended_from :: "bool \<Rightarrow> event list \<Rightarrow> bool" where
  "contended_from refused [] = True"
| "contended_from refused (e # es) =
     (e \<noteq> Db Commit False \<and> (e = DbRollback \<longrightarrow> refused) \<and> contended_from (is_refusal e) es)"

definition contended :: "event list \<Rightarrow> bool" where
  "contended es = (DbConnect \<in> set es \<and> contended_from False es)"


section \<open>Example worlds\<close>

text \<open>
  An outside world in which nothing fails. The text \<open>[q1]\<close> stands for the JSON text
  of a list with the one question \<open>q1\<close>; the evaluator fails on the transcript
  \<open>(inaudible)\<close> and gives every other transcript 8 points; the identifiers
  generated are \<open>uuid\<close>, \<open>uuid+\<close>, \<open>uuid++\<close> and so on.
\<close>

fun uuid_mark :: "event \<Rightarrow> string" where
  "uuid_mark (Uuid4 u) = ''+''"
| "uuid_mark e = []"

definition questions_q1 :: pyval where
  "questions_q1 = PList [PDict [(''id'', PStr ''q1''), (''text'', PStr ''Tell me about yourself'')]]"

definition env_calm :: env where
  "env_calm =
     \<lparr>store_busy = (\<lambda>tr q. False),
      fs_fails = (\<lambda>tr op. False),
      generate_reference_answer = (\<lambda>tr q jd r. Inr ''An ideal answer''),
      evaluate_answer = (\<lambda>tr q t ref.
         if t = ''(inaudible)'' then Inl (PyErr ''RuntimeError'' ''evaluation failed'')
         else Inr (PDict [(''total_score'', PInt 8), (''feedback'', PList [PStr ''Clear and concise''])])),
      transcribe_audio = (\<lambda>tr p. Inr ''I am a backend engineer''),
      uuid4 = (\<lambda>tr. ''uuid'' @ concat (map uuid_mark tr)),
      json_loads = (\<lambda>s. if s = ''[q1]'' then Inr questions_q1
                          else Inl (PyErr ''JSONDecodeError'' ''Expecting value'')),
      json_dumps = (\<lambda>v. if v = PList [] then ''[]'' else ''[...]'')\<rparr>"

definition session_s1 :: session_row where
  "session_s1 =
     \<lparr>s_id = ''s1'', job_description = ''Backend engineer'', resume_text = ''Five years of Python'',
      duration_seconds = 600, questions = ''[q1]'', status = ''created''\<rparr>"

text \<open>One session and one answer that has a transcript and no score.\<close>

definition w_one :: world where
  "w_one =
     \<lparr>sessions = [session_s1],
      answers = [new_answer ''a1'' ''s1'' ''q1'' ''uploads/a1.webm'' ''I am a backend engineer''],
      files = Map.empty, trace = []\<rparr>"

text \<open>The same outside world with a store that is locked at every statement.\<close>

definition env_busy :: env where
  "env_busy = env_calm\<lparr>store_busy := (\<lambda>tr q. True)\<rparr>"

text \<open>A store without any row.\<close>

definition w_empty :: world where
  "w_empty = \<lparr>sessions = [], answers = [], files = Map.empty, trace = []\<rparr>"

text \<open>An outside world in which moving a file fails and nothing else does.\<close>

definition env_no_move :: env where
  "env_no_move = env_calm\<lparr>fs_fails := (\<lambda>tr op. is_move op)\<rparr>"

text \<open>One session and no answer yet.\<close>

definition w_fresh :: world where
  "w_fresh = \<lparr>sessions = [session_s1], answers = [], files = Map.empty, trace = []\<rparr>"




text \<open>
  An outside world whose store refuses the first commit and nothing else; and a session
  with three answers to the same question.
\<close>

definition env_first_commit_fails :: env where
  "env_first_commit_fails = env_calm\<lparr>store_busy := (\<lambda>tr q. q = Commit \<and> Db Commit True \<notin> set tr)\<rparr>"

definition w_three :: world where
  "w_three =
     \<lparr>sessions = [session_s1],
      answers = [new_answer ''a1'' ''s1'' ''q1'' ''uploads/a1.webm'' ''I am a backend engineer'',
                 new_answer ''a2'' ''s1'' ''q1'' ''uploads/a2.webm'' ''I build web services'',
                 new_answer ''a3'' ''s1'' ''q1'' ''uploads/a3.webm'' ''I like databases''],
      files = Map.empty, trace = []\<rparr>"

text \<open>An outside world whose reference generator fails on its first call only.\<close>

definition env_second_try :: env where
  "env_second_try =
     env_calm\<lparr>generate_reference_answer := (\<lambda>tr q jd r.
        if gen_outcomes ''q1'' tr = [] then Inl (PyErr ''RuntimeError'' ''no reference'')
        else Inr ''An ideal answer'')\<rparr>"




text \<open>An outside world whose store refuses every commit and nothing else.\<close>

definition env_commit_busy :: env where
  "env_commit_busy = env_calm\<lparr>store_busy := (\<lambda>tr q. q = Commit)\<rparr>"




section \<open>Basic facts\<close>


declare decimal.simps [simp del]
declare bits.simps [simp del]
declare digits_of.simps [simp del]
declare bool.case_eq_if [simp]
declare analyze_retry.simps [simp del]
declare upload_db_retry.simps [simp del]

lemma emit_simps [simp]:
  "sessions (emit e w) = sessions w"
  "answers (emit e w) = answers w"
  "files (emit e w) = files w"
  "trace (emit e w) = trace w @ [e]"
  by (simp_all add: emit_def)

lemma db_exec_eq:
  "db_exec env q w = (store_busy env (trace w) q, emit (Db q (store_busy env (trace w) q)) w)"
  by (simp add: db_exec_def Let_def)

lemma fs_do_eq:
  "fs_do env op w = (fs_fails env (trace w) op, emit (Fs op (fs_fails env (trace w) op)) w)"
  by (simp add: fs_do_def Let_def)

lemma rollback_simps [simp]:
  "sessions (rollback w0 w) = sessions w0"
  "answers (rollback w0 w) = answers w0"
  "files (rollback w0 w) = files w"
  "trace (rollback w0 w) = trace w"
  by (simp_all add: rollback_def)

subsection \<open>get_db\<close>

lemma get_db_Inl:
  assumes "get_db env body w = (Inl e, w')"
  shows "sessions w' = sessions w \<and> answers w' = answers w"
  using assms
  by (auto simp: get_db_def db_exec_eq split: prod.splits sum.splits bool.splits if_splits)

lemma get_db_Inr:
  assumes "get_db env body w = (Inr r, w')"
  shows "\<exists>w1. body (emit DbConnect w) = (Inr r, w1) \<and> \<not> store_busy env (trace w1) Commit
           \<and> w' = emit (Db Commit False) w1"
  using assms
  by (auto simp: get_db_def db_exec_eq split: prod.splits sum.splits bool.splits if_splits)

subsection \<open>the retry loops\<close>

lemma analyze_retry_cases:
  "analyze_retry env sid n w = (r, w') \<Longrightarrow>
     (\<exists>e. r = Inl e \<and> sessions w' = sessions w \<and> answers w' = answers w) \<or>
     (\<exists>w0 u. r = Inr analysis_complete \<and> sessions w0 = sessions w \<and> answers w0 = answers w
         \<and> get_db env (analyze_txn env sid) w0 = (Inr u, w'))"
proof (induction env sid n w rule: analyze_retry.induct)
  case (1 env sid retry_count w)
  show ?case
  proof (cases "retry_count < max_db_retries")
    case False
    with "1.prems" show ?thesis by (auto simp: analyze_retry.simps [of env sid retry_count w])
  next
    case True
    obtain r1 w1 where att: "get_db env (analyze_txn env sid) w = (r1, w1)"
      by (cases "get_db env (analyze_txn env sid) w")
    show ?thesis
    proof (cases r1)
      case (Inr u)
      with True att "1.prems" show ?thesis
        by (auto simp: analyze_retry.simps [of env sid retry_count w])
    next
      case (Inl db_error)
      note tabs = get_db_Inl [OF att [unfolded Inl]]
      show ?thesis
      proof (cases "max_db_retries \<le> retry_count + 1")
        case True
        with \<open>retry_count < max_db_retries\<close> att Inl "1.prems" tabs show ?thesis
          by (auto simp: analyze_retry.simps [of env sid retry_count w] split: exn.splits)
      next
        case False
        let ?w2 = "emit (Sleep (2 / 10 * of_nat (retry_count + 1))) w1"
        from \<open>retry_count < max_db_retries\<close> att Inl False "1.prems"
        have rec: "analyze_retry env sid (retry_count + 1) ?w2 = (r, w')"
          by (simp add: analyze_retry.simps [of env sid retry_count w])
        from "1.IH" [OF \<open>retry_count < max_db_retries\<close> att [symmetric] _ False rec] Inl tabs
        show ?thesis by auto
      qed
    qed
  qed
qed

subsection \<open>the loop over the answers\<close>

lemma set_evaluation_id [simp]: "map a_id (set_evaluation aid sc fb ma rows) = map a_id rows"
  by (induction rows) (auto simp: set_evaluation_def)

lemma store_evaluation_frame:
  "sessions (store_evaluation env a ref ev w) = sessions w \<and>
   files (store_evaluation env a ref ev w) = files w \<and>
   (answers (store_evaluation env a ref ev w) = answers w \<or>
    (\<exists>sc fb ma. answers (store_evaluation env a ref ev w) = set_evaluation (a_id a) sc fb ma (answers w)))"
  by (auto simp: store_evaluation_def db_exec_eq split: pyval.splits sum.splits)

lemma evaluate_and_store_frame:
  "sessions (evaluate_and_store env q a ref w) = sessions w \<and>
   files (evaluate_and_store env q a ref w) = files w \<and>
   (answers (evaluate_and_store env q a ref w) = answers w \<or>
    (\<exists>sc fb ma. answers (evaluate_and_store env q a ref w) = set_evaluation (a_id a) sc fb ma (answers w)))"
proof (cases "evaluate_answer env (trace w) q (transcript_of a) ref")
  case (Inl e)
  then show ?thesis by (simp add: evaluate_and_store_def Let_def)
next
  case (Inr ev)
  then show ?thesis
    using store_evaluation_frame [of env a ref ev "emit (Evaluate q (transcript_of a) ref (Inr ev)) w"]
    by (simp add: evaluate_and_store_def Let_def)
qed

lemma get_reference_frame:
  "get_reference env qid q jd resume cache w = (res, cache', w') \<Longrightarrow>
     sessions w' = sessions w \<and> answers w' = answers w \<and> files w' = files w"
  by (auto simp: get_reference_def Let_def split: option.splits sum.splits)

lemma process_answer_frame:
  assumes "process_answer env qm jd resume a cache w = (cache', w')"
  shows "sessions w' = sessions w \<and> files w' = files w \<and>
     (answers w' = answers w \<or>
      (eligible qm a \<and> (\<exists>sc fb ma. answers w' = set_evaluation (a_id a) sc fb ma (answers w))))"
proof (cases "eligible qm a")
  case False
  with assms show ?thesis by (simp add: process_answer_def)
next
  case True
  obtain res c1 w1 where g: "get_reference env (question_id a) (question_text_of qm a) jd resume cache w = (res, c1, w1)"
    by (metis prod_cases3)
  note fr = get_reference_frame [OF g]
  show ?thesis
  proof (cases res)
    case (Inl e)
    with assms True g fr show ?thesis by (simp add: process_answer_def)
  next
    case (Inr ref)
    with assms True g have "w' = evaluate_and_store env (question_text_of qm a) a ref w1"
      by (simp add: process_answer_def)
    with evaluate_and_store_frame [of env "question_text_of qm a" a ref w1] fr True
    show ?thesis by auto
  qed
qed

text \<open>The loop rewrites rows in place: only rows that carry the id of an answer whose
  processing may store something are changed, and no row changes its id.\<close>

lemma process_answers_frame:
  assumes "process_answers env qm jd resume as cache w = (cache', w')"
    and "\<And>a c v c1 v1. a \<in> set as \<Longrightarrow> \<not> P a \<Longrightarrow> process_answer env qm jd resume a c v = (c1, v1)
            \<Longrightarrow> answers v1 = answers v"
  shows "sessions w' = sessions w \<and> files w' = files w \<and>
     (\<exists>g. answers w' = map g (answers w) \<and>
          (\<forall>x. a_id (g x) = a_id x \<and> (a_id x \<notin> a_id ` {a \<in> set as. P a} \<longrightarrow> g x = x)))"
  using assms
proof (induction as arbitrary: cache w)
  case Nil
  then have "w' = w" by simp
  then show ?case by (auto intro: exI [of _ "\<lambda>x. x"])
next
  case (Cons a as)
  obtain c1 w1 where st: "process_answer env qm jd resume a cache w = (c1, w1)"
    by (cases "process_answer env qm jd resume a cache w")
  with Cons.prems(1) have rest: "process_answers env qm jd resume as c1 w1 = (cache', w')"
    by simp
  have "sessions w' = sessions w1 \<and> files w' = files w1 \<and>
     (\<exists>g. answers w' = map g (answers w1) \<and>
          (\<forall>x. a_id (g x) = a_id x \<and> (a_id x \<notin> a_id ` {a \<in> set as. P a} \<longrightarrow> g x = x)))"
  proof (rule Cons.IH [OF rest])
    fix b c v c1 v1
    assume "b \<in> set as" "\<not> P b" "process_answer env qm jd resume b c v = (c1, v1)"
    then show "answers v1 = answers v" using Cons.prems(2) [of b c v c1 v1] by simp
  qed
  then obtain g :: "answer_row \<Rightarrow> answer_row" where g: "sessions w' = sessions w1" "files w' = files w1" "answers w' = map g (answers w1)"
    "\<And>x. a_id (g x) = a_id x" "\<And>x. a_id x \<notin> a_id ` {a \<in> set as. P a} \<Longrightarrow> g x = x"
    by blast
  from process_answer_frame [OF st]
  have fr: "sessions w1 = sessions w" "files w1 = files w"
    and ch: "answers w1 = answers w \<or> (eligible qm a \<and> (\<exists>sc fb ma. answers w1 = set_evaluation (a_id a) sc fb ma (answers w)))"
    by auto
  show ?case
  proof (cases "P a")
    case False
    with Cons.prems(2) [of a cache w c1 w1] st have "answers w1 = answers w" by simp
    with g fr show ?thesis
      by (intro conjI) (simp, simp, rule exI [of _ g], auto)
  next
    case True
    from ch obtain h :: "answer_row \<Rightarrow> answer_row" where h: "answers w1 = map h (answers w)" "\<And>x. a_id (h x) = a_id x"
      "\<And>x. a_id x \<noteq> a_id a \<Longrightarrow> h x = x"
    proof
      assume "answers w1 = answers w"
      then show ?thesis by (intro that [of "\<lambda>x. x"]) auto
    next
      assume "eligible qm a \<and> (\<exists>sc fb ma. answers w1 = set_evaluation (a_id a) sc fb ma (answers w))"
      then obtain sc fb ma where "answers w1 = set_evaluation (a_id a) sc fb ma (answers w)" by blast
      then show ?thesis
        by (intro that [of "\<lambda>x. if a_id x = a_id a then x\<lparr>score := sc, feedback := Some fb, model_answer := ma\<rparr> else x"])
           (auto simp: set_evaluation_def)
    qed
    have "answers w' = map (g \<circ> h) (answers w)" using g(3) h(1) by simp
    moreover have "\<forall>x. a_id ((g \<circ> h) x) = a_id x \<and>
         (a_id x \<notin> a_id ` {b \<in> set (a # as). P b} \<longrightarrow> (g \<circ> h) x = x)"
    proof (intro allI conjI impI)
      fix x :: answer_row show "a_id ((g \<circ> h) x) = a_id x" by (simp add: g(4) h(2))
    next
      fix x :: answer_row assume nin: "a_id x \<notin> a_id ` {b \<in> set (a # as). P b}"
      with True have "a_id x \<noteq> a_id a" by auto
      then have "h x = x" by (rule h(3))
      moreover from nin have "a_id x \<notin> a_id ` {b \<in> set as. P b}" by auto
      ultimately show "(g \<circ> h) x = x" using g(5) by simp
    qed
    ultimately have "\<exists>k. answers w' = map k (answers w) \<and>
         (\<forall>x. a_id (k x) = a_id x \<and> (a_id x \<notin> a_id ` {b \<in> set (a # as). P b} \<longrightarrow> k x = x))"
      by (intro exI [of _ "g \<circ> h"] conjI)
    then show ?thesis using g(1,2) fr by simp
  qed
qed


subsection \<open>one transaction of analyze\<close>

lemma update_status_Inr:
  "update_status env sid st w = (Inr u, w') \<Longrightarrow>
     sessions w' = set_status sid st (sessions w) \<and> answers w' = answers w \<and> files w' = files w"
  by (auto simp: update_status_def db_exec_eq split: if_splits)

lemma process_answer_skip:
  "\<not> eligible qm a \<Longrightarrow> process_answer env qm jd resume a c v = (c1, v1) \<Longrightarrow> answers v1 = answers v"
  by (simp add: process_answer_def)

lemma analyze_answers_Inr:
  assumes "analyze_answers env sid session qs w = (Inr u, w')"
  shows "sessions w' = set_status sid ''analyzed'' (sessions w) \<and> files w' = files w \<and>
     (\<exists>g. answers w' = map g (answers w) \<and>
        (\<forall>x. a_id (g x) = a_id x \<and>
           (a_id x \<notin> a_id ` {a \<in> set (answers w). session_id a = sid \<and> score a = SqlNull} \<longrightarrow> g x = x)))"
proof -
  let ?w1 = "emit (Db (SelectAnswers sid) False) w"
  let ?as = "filter (\<lambda>a. session_id a = sid) (answers w)"
  from assms obtain qm where qm: "q_text_by_id_of qs = Inr qm"
    by (auto simp: analyze_answers_def db_exec_eq split: if_splits sum.splits)
  obtain c2 w2 where loop:
    "process_answers env qm (jd_text_of session) (resume_text_of session) ?as Map.empty ?w1 = (c2, w2)"
    by (cases "process_answers env qm (jd_text_of session) (resume_text_of session) ?as Map.empty ?w1")
  with assms qm have fin: "update_status env sid ''analyzed'' w2 = (Inr u, w')"
    by (auto simp: analyze_answers_def db_exec_eq split: if_splits)
  have fr: "sessions w2 = sessions ?w1 \<and> files w2 = files ?w1 \<and>
     (\<exists>g. answers w2 = map g (answers ?w1) \<and>
          (\<forall>x. a_id (g x) = a_id x \<and> (a_id x \<notin> a_id ` {a \<in> set ?as. eligible qm a} \<longrightarrow> g x = x)))"
  proof (rule process_answers_frame [OF loop])
    fix a c v c1 v1
    assume "\<not> eligible qm a" "process_answer env qm (jd_text_of session) (resume_text_of session) a c v = (c1, v1)"
    then show "answers v1 = answers v" by (rule process_answer_skip)
  qed
  then obtain g :: "answer_row \<Rightarrow> answer_row" where g: "answers w2 = map g (answers w)"
    "\<And>x. a_id (g x) = a_id x" "\<And>x. a_id x \<notin> a_id ` {a \<in> set ?as. eligible qm a} \<Longrightarrow> g x = x"
    by auto
  have "\<forall>x. a_id (g x) = a_id x \<and>
           (a_id x \<notin> a_id ` {a \<in> set (answers w). session_id a = sid \<and> score a = SqlNull} \<longrightarrow> g x = x)"
  proof (intro allI conjI impI)
    fix x :: answer_row
    show "a_id (g x) = a_id x" by (rule g(2))
    assume "a_id x \<notin> a_id ` {a \<in> set (answers w). session_id a = sid \<and> score a = SqlNull}"
    then have "a_id x \<notin> a_id ` {a \<in> set ?as. eligible qm a}"
      by (auto simp: eligible_def)
    then show "g x = x" by (rule g(3))
  qed
  with g(1) have "\<exists>g. answers w' = map g (answers w) \<and>
        (\<forall>x. a_id (g x) = a_id x \<and>
           (a_id x \<notin> a_id ` {a \<in> set (answers w). session_id a = sid \<and> score a = SqlNull} \<longrightarrow> g x = x))"
    using update_status_Inr [OF fin] by (intro exI [of _ g]) simp
  then show ?thesis using update_status_Inr [OF fin] fr by simp
qed

lemma analyze_txn_Inr:
  assumes "analyze_txn env sid w = (Inr u, w')"
  shows "sessions w' = set_status sid ''analyzed'' (sessions w) \<and> files w' = files w \<and>
     (\<exists>g. answers w' = map g (answers w) \<and>
        (\<forall>x. a_id (g x) = a_id x \<and>
           (a_id x \<notin> a_id ` {a \<in> set (answers w). session_id a = sid \<and> score a = SqlNull} \<longrightarrow> g x = x)))"
proof -
  let ?w1 = "emit (Db (SelectSession sid) False) w"
  from assms obtain session qs where
    "analyze_answers env sid session qs ?w1 = (Inr u, w') \<or> update_status env sid ''analyzed'' ?w1 = (Inr u, w')"
    by (auto simp: analyze_txn_def db_exec_eq split: if_splits option.splits sum.splits)
  then show ?thesis
  proof
    assume "analyze_answers env sid session qs ?w1 = (Inr u, w')"
    from analyze_answers_Inr [OF this] show ?thesis by simp
  next
    assume "update_status env sid ''analyzed'' ?w1 = (Inr u, w')"
    from update_status_Inr [OF this] show ?thesis
      by (auto intro: exI [of _ "\<lambda>x. x"])
  qed
qed

lemma analyze_session_answers:
  assumes "analyze_session env sid w = (r, w')"
  shows "\<exists>g. answers w' = map g (answers w) \<and>
        (\<forall>x. a_id (g x) = a_id x \<and>
           (a_id x \<notin> a_id ` {a \<in> set (answers w). session_id a = sid \<and> score a = SqlNull} \<longrightarrow> g x = x))"
proof -
  from analyze_retry_cases [OF assms [unfolded analyze_session_def]]
  show ?thesis
  proof
    assume "\<exists>e. r = Inl e \<and> sessions w' = sessions w \<and> answers w' = answers w"
    then show ?thesis by (auto intro: exI [of _ "\<lambda>x. x"])
  next
    assume "\<exists>w0 u. r = Inr analysis_complete \<and> sessions w0 = sessions w \<and> answers w0 = answers w
         \<and> get_db env (analyze_txn env sid) w0 = (Inr u, w')"
    then obtain w0 u where w0: "answers w0 = answers w" "get_db env (analyze_txn env sid) w0 = (Inr u, w')"
      by blast
    from get_db_Inr [OF w0(2)] obtain w1 where
      w1: "analyze_txn env sid (emit DbConnect w0) = (Inr u, w1)" "w' = emit (Db Commit False) w1"
      by blast
    from analyze_txn_Inr [OF w1(1)] w0(1) w1(2) show ?thesis by simp
  qed
qed


subsection \<open>running the model on an example\<close>

lemmas model_defs =
  analyze_session_def analyze_txn_def analyze_answers_def get_db_def db_exec_def emit_def rollback_def
  update_status_def set_status_def parse_questions_def jd_text_of_def resume_text_of_def py_or_str_def
  process_answer_def eligible_def has_transcript_def transcript_of_def question_text_of_def
  get_reference_def evaluate_and_store_def store_evaluation_def derive_score_def derive_feedback_def
  derive_model_answer_def dict_get_def set_evaluation_def max_db_retries_def analysis_complete_def
  database_is_locked_def Let_def

lemmas example_defs =
  env_calm_def w_one_def session_s1_def questions_q1_def new_answer_def

lemma w_one_analyzed:
  "analyze_session env_calm ''s1'' w_one =
   (Inr (''success'', ''Analysis complete''),
    \<lparr>sessions = [session_s1\<lparr>status := ''analyzed''\<rparr>],
     answers = [(new_answer ''a1'' ''s1'' ''q1'' ''uploads/a1.webm'' ''I am a backend engineer'')
        \<lparr>score := SqlInt 8, feedback := Some ''[...]'', model_answer := SqlText ''An ideal answer''\<rparr>],
     files = Map.empty,
     trace =
       [DbConnect, Db (SelectSession ''s1'') False, Db (SelectAnswers ''s1'') False,
        Generate ''q1'' (PStr ''Tell me about yourself'') ''Backend engineer'' ''Five years of Python''
          (Inr ''An ideal answer''),
        Evaluate (PStr ''Tell me about yourself'') ''I am a backend engineer'' ''An ideal answer''
          (Inr (PDict [(''total_score'', PInt 8), (''feedback'', PList [PStr ''Clear and concise''])])),
        Db (UpdateEvaluation ''a1'') False, Db (UpdateStatus ''s1'' ''analyzed'') False,
        Db Commit False]\<rparr>)"
  by (simp add: model_defs example_defs analyze_retry.simps [of _ _ 0])

lemma extends_refl [simp]: "extends w w"
  by (simp add: extends_def)

lemma extends_trans: "extends a b \<Longrightarrow> extends b c \<Longrightarrow> extends a c"
  by (auto simp: extends_def)

lemma extends_emit: "txn_event e \<Longrightarrow> extends w (emit e w)"
  by (simp add: extends_def)

lemma extends_emit_trans: "txn_event e \<Longrightarrow> extends (emit e w) w' \<Longrightarrow> extends w w'"
  by (rule extends_trans [OF extends_emit])

lemma extends_cong: "trace v = trace w \<Longrightarrow> trace v' = trace w' \<Longrightarrow> extends v v' = extends w w'"
  by (simp add: extends_def)

lemma extends_update [simp]:
  "extends w (v\<lparr>answers := xs\<rparr>) = extends w v"
  "extends w (v\<lparr>sessions := ys\<rparr>) = extends w v"
  by (simp_all add: extends_def)

lemma db_exec_extends: "extends w (snd (db_exec env q w))"
  by (simp add: db_exec_eq extends_emit)

lemma update_status_extends: "update_status env sid st w = (r, w') \<Longrightarrow> extends w w'"
  by (auto simp: update_status_def db_exec_eq extends_emit split: if_splits)

lemma store_evaluation_extends: "extends w (store_evaluation env a ref ev w)"
  by (auto simp: store_evaluation_def db_exec_eq extends_emit split: pyval.splits sum.splits)

lemma evaluate_and_store_extends: "extends w (evaluate_and_store env q a ref w)"
proof -
  let ?res = "evaluate_answer env (trace w) q (transcript_of a) ref"
  let ?w1 = "emit (Evaluate q (transcript_of a) ref ?res) w"
  have 1: "extends w ?w1" by (simp add: extends_emit)
  show ?thesis
  proof (cases ?res)
    case (Inl e)
    with 1 show ?thesis by (simp add: evaluate_and_store_def Let_def)
  next
    case (Inr ev)
    then have "evaluate_and_store env q a ref w = store_evaluation env a ref ev ?w1"
      by (simp add: evaluate_and_store_def Let_def)
    with extends_trans [OF 1 store_evaluation_extends [of ?w1 env a ref ev]] show ?thesis by simp
  qed
qed

lemma get_reference_extends:
  "get_reference env qid q jd resume cache w = (res, cache', w') \<Longrightarrow> extends w w'"
  by (auto simp: get_reference_def Let_def extends_emit split: option.splits sum.splits)

lemma process_answer_extends:
  assumes "process_answer env qm jd resume a cache w = (cache', w')"
  shows "extends w w'"
proof (cases "eligible qm a")
  case False
  with assms show ?thesis by (simp add: process_answer_def)
next
  case True
  obtain res c1 w1 where g: "get_reference env (question_id a) (question_text_of qm a) jd resume cache w = (res, c1, w1)"
    by (metis prod_cases3)
  note 1 = get_reference_extends [OF g]
  show ?thesis
  proof (cases res)
    case (Inl e)
    with assms True g 1 show ?thesis by (simp add: process_answer_def)
  next
    case (Inr ref)
    with assms True g have "w' = evaluate_and_store env (question_text_of qm a) a ref w1"
      by (simp add: process_answer_def)
    with extends_trans [OF 1 evaluate_and_store_extends [of w1 env "question_text_of qm a" a ref]]
    show ?thesis by simp
  qed
qed

lemma process_answers_extends:
  "process_answers env qm jd resume as cache w = (cache', w') \<Longrightarrow> extends w w'"
proof (induction as arbitrary: cache w)
  case Nil
  then show ?case by simp
next
  case (Cons a as)
  obtain c1 w1 where st: "process_answer env qm jd resume a cache w = (c1, w1)"
    by (cases "process_answer env qm jd resume a cache w")
  with Cons.prems have "process_answers env qm jd resume as c1 w1 = (cache', w')" by simp
  from extends_trans [OF process_answer_extends [OF st] Cons.IH [OF this]] show ?case .
qed

lemma analyze_answers_extends:
  assumes "analyze_answers env sid session qs w = (r, w')"
  shows "extends w w'"
proof -
  let ?b = "store_busy env (trace w) (SelectAnswers sid)"
  let ?w1 = "emit (Db (SelectAnswers sid) ?b) w"
  have 1: "extends w ?w1" by (simp add: extends_emit)
  show ?thesis
  proof (cases "?b \<or> (\<exists>e. q_text_by_id_of qs = Inl e)")
    case True
    with assms have "w' = ?w1"
      by (auto simp: analyze_answers_def db_exec_eq split: if_splits sum.splits)
    with 1 show ?thesis by simp
  next
    case False
    then obtain qm where qm: "q_text_by_id_of qs = Inr qm" and nb: "\<not> ?b"
      by (cases "q_text_by_id_of qs") auto
    obtain c2 w2 where loop: "process_answers env qm (jd_text_of session) (resume_text_of session)
        (filter (\<lambda>a. session_id a = sid) (answers ?w1)) Map.empty ?w1 = (c2, w2)"
      by (metis surj_pair)
    with assms qm nb have "update_status env sid ''analyzed'' w2 = (r, w')"
      by (simp add: analyze_answers_def db_exec_eq)
    from extends_trans [OF 1 extends_trans [OF process_answers_extends [OF loop] update_status_extends [OF this]]]
    show ?thesis .
  qed
qed

lemma analyze_txn_extends:
  assumes "analyze_txn env sid w = (r, w')"
  shows "extends w w'"
proof -
  let ?b = "store_busy env (trace w) (SelectSession sid)"
  let ?w1 = "emit (Db (SelectSession sid) ?b) w"
  have 1: "extends w ?w1" by (simp add: extends_emit)
  from assms have "w' = ?w1 \<or> (\<exists>session qs. analyze_answers env sid session qs ?w1 = (r, w'))
       \<or> update_status env sid ''analyzed'' ?w1 = (r, w')"
    by (auto simp: analyze_txn_def db_exec_eq split: if_splits sum.splits option.splits)
  then show ?thesis
    using 1 by (auto dest!: analyze_answers_extends update_status_extends intro: extends_trans)
qed

lemma attempts_append [simp]: "attempts (xs @ ys) = attempts xs + attempts ys"
  by (simp add: attempts_def)

lemma sleeps_append [simp]: "sleeps (xs @ ys) = sleeps xs @ sleeps ys"
  by (simp add: sleeps_def)

lemma txn_events_quiet: "list_all txn_event evs \<Longrightarrow> attempts evs = 0 \<and> sleeps evs = []"
proof (induction evs)
  case Nil
  then show ?case by (simp add: attempts_def sleeps_def)
next
  case (Cons e evs)
  then show ?case by (cases e) (auto simp: attempts_def sleeps_def)
qed

lemma extends_quiet:
  "extends w w' \<Longrightarrow> attempts (trace w') = attempts (trace w) \<and> sleeps (trace w') = sleeps (trace w)"
  by (auto simp: extends_def dest: txn_events_quiet)

lemma get_db_attempt:
  assumes "get_db env body w = (r, w')"
    and "\<And>v r1 v1. body v = (r1, v1) \<Longrightarrow> extends v v1"
  shows "attempts (trace w') = attempts (trace w) + 1 \<and> sleeps (trace w') = sleeps (trace w)"
proof -
  obtain r1 w1 where b: "body (emit DbConnect w) = (r1, w1)"
    by (cases "body (emit DbConnect w)")
  from extends_quiet [OF assms(2) [OF b]]
  have q: "attempts (trace w1) = attempts (trace w) + 1" "sleeps (trace w1) = sleeps (trace w)"
    by (simp_all add: attempts_def sleeps_def)
  from assms(1) b have "trace w' = trace w1 @ [DbRollback] \<or> trace w' = trace w1 @ [Db Commit False]
      \<or> trace w' = trace w1 @ [Db Commit True, DbRollback]"
    by (auto simp: get_db_def db_exec_eq split: sum.splits if_splits)
  with q show ?thesis
    by (auto simp: attempts_def sleeps_def)
qed


lemma insert_answer_extends: "insert_answer env sid qid path tr w = (r, w') \<Longrightarrow> extends w w'"
  by (auto simp: insert_answer_def Let_def db_exec_eq extends_def split: if_splits)

lemma update_answer_extends: "update_answer env aid path tr w = (r, w') \<Longrightarrow> extends w w'"
  by (auto simp: update_answer_def db_exec_eq extends_def split: if_splits)

lemma upload_txn_extends:
  assumes "upload_txn env sid qid path tr w = (r, w')"
  shows "extends w w'"
proof (cases "store_busy env (trace w) (SelectAnswerId sid qid)")
  case True
  with assms show ?thesis by (auto simp: upload_txn_def db_exec_eq extends_emit)
next
  case False
  let ?w1 = "emit (Db (SelectAnswerId sid qid) False) w"
  have 1: "extends w ?w1" by (simp add: extends_emit)
  let ?step = "case find (\<lambda>a. session_id a = sid \<and> question_id a = qid) (answers ?w1) of
                 Some existing \<Rightarrow> update_answer env (a_id existing) path tr ?w1
               | None \<Rightarrow> insert_answer env sid qid path tr ?w1"
  obtain r2 w2 where st: "?step = (r2, w2)" by (cases ?step)
  then have 2: "extends ?w1 w2"
    by (auto split: option.splits dest: update_answer_extends insert_answer_extends)
  show ?thesis
  proof (cases r2)
    case (Inl e)
    with assms False st have "w' = w2" by (simp add: upload_txn_def db_exec_eq)
    with extends_trans [OF 1 2] show ?thesis by simp
  next
    case (Inr u)
    with assms False st have "update_status env sid ''in_progress'' w2 = (r, w')"
      by (simp add: upload_txn_def db_exec_eq)
    from extends_trans [OF 1 extends_trans [OF 2 update_status_extends [OF this]]] show ?thesis .
  qed
qed

lemma analyze_attempt_counts:
  "get_db env (analyze_txn env sid) w = (r, w') \<Longrightarrow>
     attempts (trace w') = attempts (trace w) + 1 \<and> sleeps (trace w') = sleeps (trace w)"
  by (erule get_db_attempt) (rule analyze_txn_extends)

lemma upload_attempt_counts:
  "get_db env (upload_txn env sid qid path tr) w = (r, w') \<Longrightarrow>
     attempts (trace w') = attempts (trace w) + 1 \<and> sleeps (trace w') = sleeps (trace w)"
  by (erule get_db_attempt) (rule upload_txn_extends)

lemma analyze_retry_again:
  "n + 1 < max_db_retries \<Longrightarrow> get_db env (analyze_txn env sid) w = (Inl e, w1) \<Longrightarrow>
     analyze_retry env sid n w =
       analyze_retry env sid (n + 1) (emit (Sleep (2 / 10 * of_nat (n + 1))) w1)"
  by (subst analyze_retry.simps) simp

lemma analyze_retry_last:
  "n + 1 = max_db_retries \<Longrightarrow> get_db env (analyze_txn env sid) w = (Inl e, w1) \<Longrightarrow>
     analyze_retry env sid n w =
       (case e of
          HTTPException code detail \<Rightarrow> (Inl e, w1)
        | Raised x \<Rightarrow>
            (Inl (HTTPException 500 (''Database error during analysis after 3 retries: '' @ err_str x)), w1))"
  by (subst analyze_retry.simps) auto


lemma upload_retry_again:
  "n + 1 < max_retries \<Longrightarrow> get_db env (upload_txn env sid qid path tr) w = (Inl e, w1) \<Longrightarrow>
     upload_db_retry env sid qid path tr n w =
       upload_db_retry env sid qid path tr (n + 1) (emit (Sleep (1 / 10 * of_nat (n + 1))) w1)"
  by (subst upload_db_retry.simps) simp

lemma upload_retry_last:
  "n + 1 = max_retries \<Longrightarrow> get_db env (upload_txn env sid qid path tr) w = (Inl e, w1) \<Longrightarrow>
     upload_db_retry env sid qid path tr n w =
       (Inl (HTTPException 500 (''Database error after 3 retries: '' @ exn_str e)), w1)"
  by (subst upload_db_retry.simps) auto

lemma upload_retry_done:
  "n < max_retries \<Longrightarrow> get_db env (upload_txn env sid qid path tr) w = (Inr u, w1) \<Longrightarrow>
     upload_db_retry env sid qid path tr n w = (Inr (), w1)"
  by (subst upload_db_retry.simps) simp

lemma analyze_exhausts:
  assumes busy: "\<And>v. \<exists>v'. get_db env (analyze_txn env sid) v = (Inl (Raised database_is_locked), v')"
  shows "\<exists>w'. analyze_session env sid w =
        (Inl (HTTPException 500 ''Database error during analysis after 3 retries: database is locked''), w')
      \<and> attempts (trace w') = attempts (trace w) + 3
      \<and> sleeps (trace w') = sleeps (trace w) @ [2 / 10 * 1, 2 / 10 * 2]
      \<and> sessions w' = sessions w \<and> answers w' = answers w"
proof -
  from busy obtain w1 where 1: "get_db env (analyze_txn env sid) w = (Inl (Raised database_is_locked), w1)"
    by blast
  let ?v1 = "emit (Sleep (2 / 10 * of_nat (0 + 1))) w1"
  from busy obtain w2 where 2: "get_db env (analyze_txn env sid) ?v1 = (Inl (Raised database_is_locked), w2)"
    by blast
  let ?v2 = "emit (Sleep (2 / 10 * of_nat (0 + 1 + 1))) w2"
  from busy obtain w3 where 3: "get_db env (analyze_txn env sid) ?v2 = (Inl (Raised database_is_locked), w3)"
    by blast
  have "analyze_retry env sid 0 w = analyze_retry env sid (0 + 1) ?v1"
    by (rule analyze_retry_again [OF _ 1]) (simp add: max_db_retries_def)
  also have "\<dots> = analyze_retry env sid (0 + 1 + 1) ?v2"
    by (rule analyze_retry_again [OF _ 2]) (simp add: max_db_retries_def)
  also have "\<dots> = (Inl (HTTPException 500 ''Database error during analysis after 3 retries: database is locked''), w3)"
    by (subst analyze_retry_last [OF _ 3]) (simp_all add: max_db_retries_def database_is_locked_def)
  finally have "analyze_session env sid w =
      (Inl (HTTPException 500 ''Database error during analysis after 3 retries: database is locked''), w3)"
    by (simp add: analyze_session_def)
  moreover have "attempts (trace w3) = attempts (trace w) + 3"
    "sleeps (trace w3) = sleeps (trace w) @ [2 / 10 * 1, 2 / 10 * 2]"
    using analyze_attempt_counts [OF 1] analyze_attempt_counts [OF 2] analyze_attempt_counts [OF 3]
    by (simp_all add: attempts_def sleeps_def)
  moreover have "sessions w3 = sessions w \<and> answers w3 = answers w"
    using get_db_Inl [OF 1] get_db_Inl [OF 2] get_db_Inl [OF 3] by simp
  ultimately show ?thesis by blast
qed

lemma upload_exhausts:
  assumes busy: "\<And>v. \<exists>v'. get_db env (upload_txn env sid qid path tr) v = (Inl (Raised database_is_locked), v')"
  shows "\<exists>w'. upload_db_retry env sid qid path tr 0 w =
        (Inl (HTTPException 500 ''Database error after 3 retries: database is locked''), w')
      \<and> attempts (trace w') = attempts (trace w) + 3
      \<and> sleeps (trace w') = sleeps (trace w) @ [1 / 10 * 1, 1 / 10 * 2]
      \<and> sessions w' = sessions w \<and> answers w' = answers w"
proof -
  from busy obtain w1 where 1: "get_db env (upload_txn env sid qid path tr) w = (Inl (Raised database_is_locked), w1)"
    by blast
  let ?v1 = "emit (Sleep (1 / 10 * of_nat (0 + 1))) w1"
  from busy obtain w2 where 2: "get_db env (upload_txn env sid qid path tr) ?v1 = (Inl (Raised database_is_locked), w2)"
    by blast
  let ?v2 = "emit (Sleep (1 / 10 * of_nat (0 + 1 + 1))) w2"
  from busy obtain w3 where 3: "get_db env (upload_txn env sid qid path tr) ?v2 = (Inl (Raised database_is_locked), w3)"
    by blast
  have "upload_db_retry env sid qid path tr 0 w = upload_db_retry env sid qid path tr (0 + 1) ?v1"
    by (rule upload_retry_again [OF _ 1]) (simp add: max_retries_def)
  also have "\<dots> = upload_db_retry env sid qid path tr (0 + 1 + 1) ?v2"
    by (rule upload_retry_again [OF _ 2]) (simp add: max_retries_def)
  also have "\<dots> = (Inl (HTTPException 500 ''Database error after 3 retries: database is locked''), w3)"
    by (subst upload_retry_last [OF _ 3]) (simp_all add: max_retries_def database_is_locked_def)
  finally have "upload_db_retry env sid qid path tr 0 w =
      (Inl (HTTPException 500 ''Database error after 3 retries: database is locked''), w3)" .
  moreover have "attempts (trace w3) = attempts (trace w) + 3"
    "sleeps (trace w3) = sleeps (trace w) @ [1 / 10 * 1, 1 / 10 * 2]"
    using upload_attempt_counts [OF 1] upload_attempt_counts [OF 2] upload_attempt_counts [OF 3]
    by (simp_all add: attempts_def sleeps_def)
  moreover have "sessions w3 = sessions w \<and> answers w3 = answers w"
    using get_db_Inl [OF 1] get_db_Inl [OF 2] get_db_Inl [OF 3] by simp
  ultimately show ?thesis by blast
qed

lemma busy_analyze_attempt:
  assumes "\<And>tr q. store_busy env tr q"
  shows "get_db env (analyze_txn env sid) w =
    (Inl (Raised database_is_locked),
     w\<lparr>trace := trace w @ [DbConnect, Db (SelectSession sid) True, DbRollback]\<rparr>)"
  using assms by (simp add: get_db_def analyze_txn_def db_exec_eq emit_def rollback_def)

lemma busy_upload_attempt:
  assumes "\<And>tr q. store_busy env tr q"
  shows "get_db env (upload_txn env sid qid path tr) w =
    (Inl (Raised database_is_locked),
     w\<lparr>trace := trace w @ [DbConnect, Db (SelectAnswerId sid qid) True, DbRollback]\<rparr>)"
  using assms by (simp add: get_db_def upload_txn_def db_exec_eq emit_def rollback_def)

lemma missing_analyze_attempt:
  assumes "\<And>tr q. \<not> store_busy env tr q" and "find (\<lambda>s. s_id s = sid) (sessions w) = None"
  shows "get_db env (analyze_txn env sid) w =
    (Inl (HTTPException 404 ''Session not found''),
     w\<lparr>trace := trace w @ [DbConnect, Db (SelectSession sid) False, DbRollback]\<rparr>)"
  using assms by (simp add: get_db_def analyze_txn_def db_exec_eq emit_def rollback_def)

lemma analyze_missing:
  assumes calm: "\<And>tr q. \<not> store_busy env tr q"
    and missing: "find (\<lambda>s. s_id s = sid) (sessions w) = None"
  shows "analyze_session env sid w =
    (Inl (HTTPException 404 ''Session not found''),
     w\<lparr>trace := trace w @
        [DbConnect, Db (SelectSession sid) False, DbRollback, Sleep (2 / 10 * 1),
         DbConnect, Db (SelectSession sid) False, DbRollback, Sleep (2 / 10 * 2),
         DbConnect, Db (SelectSession sid) False, DbRollback]\<rparr>)"
proof -
  let ?ev = "[DbConnect, Db (SelectSession sid) False, DbRollback]"
  let ?w1 = "w\<lparr>trace := trace w @ ?ev\<rparr>"
  let ?v1 = "emit (Sleep (2 / 10 * of_nat (0 + 1))) ?w1"
  let ?w2 = "?v1\<lparr>trace := trace ?v1 @ ?ev\<rparr>"
  let ?v2 = "emit (Sleep (2 / 10 * of_nat (0 + 1 + 1))) ?w2"
  let ?w3 = "?v2\<lparr>trace := trace ?v2 @ ?ev\<rparr>"
  have 1: "get_db env (analyze_txn env sid) w = (Inl (HTTPException 404 ''Session not found''), ?w1)"
    by (rule missing_analyze_attempt [OF calm missing])
  have 2: "get_db env (analyze_txn env sid) ?v1 = (Inl (HTTPException 404 ''Session not found''), ?w2)"
    by (rule missing_analyze_attempt [OF calm]) (simp add: missing)
  have 3: "get_db env (analyze_txn env sid) ?v2 = (Inl (HTTPException 404 ''Session not found''), ?w3)"
    by (rule missing_analyze_attempt [OF calm]) (simp add: missing)
  have "analyze_retry env sid 0 w = analyze_retry env sid (0 + 1) ?v1"
    by (rule analyze_retry_again [OF _ 1]) (simp add: max_db_retries_def)
  also have "\<dots> = analyze_retry env sid (0 + 1 + 1) ?v2"
    by (rule analyze_retry_again [OF _ 2]) (simp add: max_db_retries_def)
  also have "\<dots> = (Inl (HTTPException 404 ''Session not found''), ?w3)"
    by (subst analyze_retry_last [OF _ 3]) (simp_all add: max_db_retries_def)
  finally show ?thesis
    by (simp add: analyze_session_def emit_def)
qed

subsection \<open>upload: the files\<close>

lemma move_into_place_tables:
  "move_into_place env t f w = (r, w') \<Longrightarrow> sessions w' = sessions w \<and> answers w' = answers w"
  by (auto simp: move_into_place_def fs_do_eq split: if_splits)

lemma save_audio_tables:
  "save_audio env t f c w = (r, w') \<Longrightarrow> sessions w' = sessions w \<and> answers w' = answers w"
  by (auto simp: save_audio_def fs_do_eq Let_def split: if_splits option.splits
      dest!: move_into_place_tables)

lemma save_audio_Inr:
  "save_audio env t f c w = (Inr u, w') \<Longrightarrow> t \<noteq> f \<Longrightarrow> files w' f = Some c \<and> files w' t = None"
  by (auto simp: save_audio_def move_into_place_def fs_do_eq Let_def split: if_splits option.splits)

lemma transcribe_frame:
  "transcribe env f w = (tr, w') \<Longrightarrow>
     sessions w' = sessions w \<and> answers w' = answers w \<and> files w' = files w"
  by (auto simp: transcribe_def Let_def)

subsection \<open>upload: one transaction\<close>

lemma update_status_files: "update_status env sid st w = (r, w') \<Longrightarrow> files w' = files w"
  by (auto simp: update_status_def db_exec_eq split: if_splits)

lemma upload_txn_files: "upload_txn env sid qid path tr w = (r, w') \<Longrightarrow> files w' = files w"
  by (auto simp: upload_txn_def db_exec_eq update_answer_def insert_answer_def Let_def
      split: if_splits option.splits sum.splits prod.splits dest!: update_status_files)

lemma upload_txn_Inr:
  assumes "upload_txn env sid qid path tr w = (Inr u, w')"
  shows "sessions w' = set_status sid ''in_progress'' (sessions w) \<and>
     (case find (\<lambda>a. session_id a = sid \<and> question_id a = qid) (answers w) of
        Some existing \<Rightarrow> answers w' = set_audio (a_id existing) path tr (answers w)
      | None \<Rightarrow> (\<exists>aid. aid \<notin> a_id ` set (answers w) \<and>
                   answers w' = answers w @ [new_answer aid sid qid path tr]))"
  using assms
  by (auto simp: upload_txn_def db_exec_eq update_answer_def insert_answer_def Let_def
      split: if_splits option.splits sum.splits prod.splits dest!: update_status_Inr)

lemma get_db_files:
  assumes "get_db env body w = (r, w')"
    and "\<And>v r1 v1. body v = (r1, v1) \<Longrightarrow> files v1 = files v"
  shows "files w' = files w"
proof -
  obtain r1 w1 where b: "body (emit DbConnect w) = (r1, w1)"
    by (cases "body (emit DbConnect w)")
  from assms(2) [OF b] have "files w1 = files w" by simp
  with assms(1) b show ?thesis
    by (auto simp: get_db_def db_exec_eq split: sum.splits if_splits)
qed

lemma upload_db_retry_cases:
  "upload_db_retry env sid qid path tr n w = (r, w') \<Longrightarrow>
     files w' = files w \<and>
     ((\<exists>e. r = Inl e \<and> sessions w' = sessions w \<and> answers w' = answers w) \<or>
      (max_retries \<le> n \<and> r = Inr () \<and> w' = w) \<or>
      (\<exists>w0 u. r = Inr () \<and> sessions w0 = sessions w \<and> answers w0 = answers w
         \<and> get_db env (upload_txn env sid qid path tr) w0 = (Inr u, w')))"
proof (induction env sid qid path tr n w rule: upload_db_retry.induct)
  case (1 env sid qid path tr retry_count w)
  show ?case
  proof (cases "retry_count < max_retries")
    case False
    with "1.prems" show ?thesis
      by (auto simp: upload_db_retry.simps [of env sid qid path tr retry_count w])
  next
    case True
    obtain r1 w1 where att: "get_db env (upload_txn env sid qid path tr) w = (r1, w1)"
      by (cases "get_db env (upload_txn env sid qid path tr) w")
    have f1: "files w1 = files w"
      by (rule get_db_files [OF att]) (rule upload_txn_files)
    show ?thesis
    proof (cases r1)
      case (Inr u)
      with True att "1.prems" f1 show ?thesis
        by (auto simp: upload_db_retry.simps [of env sid qid path tr retry_count w])
    next
      case (Inl db_error)
      note tabs = get_db_Inl [OF att [unfolded Inl]]
      show ?thesis
      proof (cases "max_retries \<le> retry_count + 1")
        case True
        with \<open>retry_count < max_retries\<close> att Inl "1.prems" tabs f1 show ?thesis
          by (auto simp: upload_db_retry.simps [of env sid qid path tr retry_count w])
      next
        case False
        let ?w2 = "emit (Sleep (1 / 10 * of_nat (retry_count + 1))) w1"
        from \<open>retry_count < max_retries\<close> att Inl False "1.prems"
        have rec: "upload_db_retry env sid qid path tr (retry_count + 1) ?w2 = (r, w')"
          by (simp add: upload_db_retry.simps [of env sid qid path tr retry_count w])
        from "1.IH" [OF \<open>retry_count < max_retries\<close> att [symmetric] _ False rec] Inl tabs f1 False
        show ?thesis by auto
      qed
    qed
  qed
qed

subsection \<open>upload: the whole handler\<close>

lemma store_upload_Inr:
  assumes "store_upload env sid qid fp w = (Inr (tr, path), vars, w')"
  shows "path = fp \<and> files w' = files w \<and>
     sessions w' = set_status sid ''in_progress'' (sessions w) \<and>
     (case find (\<lambda>a. session_id a = sid \<and> question_id a = qid) (answers w) of
        Some existing \<Rightarrow> answers w' = set_audio (a_id existing) path tr (answers w)
      | None \<Rightarrow> (\<exists>aid. aid \<notin> a_id ` set (answers w) \<and>
                   answers w' = answers w @ [new_answer aid sid qid path tr]))"
proof -
  obtain t w1 where t: "transcribe env fp w = (t, w1)" by (cases "transcribe env fp w")
  note f1 = transcribe_frame [OF t]
  from assms t have loop: "upload_db_retry env sid qid fp t 0 w1 = (Inr (), w')" and eq: "tr = t" "path = fp"
    by (auto simp: store_upload_def split: prod.splits sum.splits)
  from upload_db_retry_cases [OF loop] obtain w0 u where
    w0: "files w' = files w1" "sessions w0 = sessions w1" "answers w0 = answers w1"
        "get_db env (upload_txn env sid qid fp t) w0 = (Inr u, w')"
    by (auto simp: max_retries_def)
  from get_db_Inr [OF w0(4)] obtain w2 where
    w2: "upload_txn env sid qid fp t (emit DbConnect w0) = (Inr u, w2)" "w' = emit (Db Commit False) w2"
    by blast
  from upload_txn_Inr [OF w2(1)] w2(2) w0 f1 eq show ?thesis
    by (simp cong: option.case_cong)
qed

lemma store_upload_Inl:
  assumes "store_upload env sid qid fp w = (Inl e, vars, w')"
  shows "sessions w' = sessions w \<and> answers w' = answers w \<and> files w' = files w"
proof -
  obtain t w1 where t: "transcribe env fp w = (t, w1)" by (cases "transcribe env fp w")
  note f1 = transcribe_frame [OF t]
  from assms t have loop: "upload_db_retry env sid qid fp t 0 w1 = (Inl e, w')"
    by (auto simp: store_upload_def split: prod.splits sum.splits)
  from upload_db_retry_cases [OF loop] f1 show ?thesis by auto
qed

lemma upload_body_Inr:
  assumes "upload_body env sid qid filename content w = (Inr (tr, path), vars, w')"
  shows "content \<noteq> [] \<and> files w' path = Some content \<and>
     sessions w' = set_status sid ''in_progress'' (sessions w) \<and>
     (case find (\<lambda>a. session_id a = sid \<and> question_id a = qid) (answers w) of
        Some existing \<Rightarrow> answers w' = set_audio (a_id existing) path tr (answers w)
      | None \<Rightarrow> (\<exists>aid. aid \<notin> a_id ` set (answers w) \<and>
                   answers w' = answers w @ [new_answer aid sid qid path tr]))"
proof -
  let ?w1 = "emit (Fs Makedirs False) w"
  from assms have ne: "content \<noteq> []" and nf: "\<not> fs_fails env (trace w) Makedirs"
    by (auto simp: upload_body_def fs_do_eq split: if_splits)
  with assms obtain name where name: "filename = Some name"
    by (cases filename) (auto simp: upload_body_def fs_do_eq)
  let ?u = "uuid4 env (trace ?w1)"
  let ?w2 = "emit (Uuid4 ?u) ?w1"
  let ?fp = "''uploads/'' @ ?u @ ''.'' @ file_extension name"
  obtain r3 w3 where sv: "save_audio env (?fp @ ''.tmp'') ?fp content ?w2 = (r3, w3)"
    by (cases "save_audio env (?fp @ ''.tmp'') ?fp content ?w2")
  with assms ne nf name obtain u3 where r3: "r3 = Inr u3"
    and st: "store_upload env sid qid ?fp w3 = (Inr (tr, path), vars, w')"
    by (cases r3) (auto simp: upload_body_def fs_do_eq Let_def)
  from save_audio_tables [OF sv] have tabs: "sessions w3 = sessions w" "answers w3 = answers w"
    by simp_all
  from save_audio_Inr [OF sv [unfolded r3]] have fl: "files w3 ?fp = Some content" by simp
  from store_upload_Inr [OF st] tabs fl ne show ?thesis
    by (auto split: option.splits)
qed

lemma upload_body_Inl:
  assumes "upload_body env sid qid filename content w = (Inl e, vars, w')"
  shows "sessions w' = sessions w \<and> answers w' = answers w"
proof (cases "fs_fails env (trace w) Makedirs \<or> content = [] \<or> filename = None")
  case True
  with assms show ?thesis
    by (auto simp: upload_body_def fs_do_eq split: if_splits option.splits)
next
  case False
  then obtain name where name: "filename = Some name" by auto
  let ?w1 = "emit (Fs Makedirs False) w"
  let ?u = "uuid4 env (trace ?w1)"
  let ?w2 = "emit (Uuid4 ?u) ?w1"
  let ?fp = "''uploads/'' @ ?u @ ''.'' @ file_extension name"
  obtain r3 w3 where sv: "save_audio env (?fp @ ''.tmp'') ?fp content ?w2 = (r3, w3)"
    by (cases "save_audio env (?fp @ ''.tmp'') ?fp content ?w2")
  from save_audio_tables [OF sv] have tabs: "sessions w3 = sessions w" "answers w3 = answers w"
    by simp_all
  show ?thesis
  proof (cases r3)
    case (Inl e3)
    with assms False name sv have "w' = w3"
      by (auto simp: upload_body_def fs_do_eq Let_def)
    with tabs show ?thesis by simp
  next
    case (Inr u3)
    with assms False name sv have "store_upload env sid qid ?fp w3 = (Inl e, vars, w')"
      by (auto simp: upload_body_def fs_do_eq Let_def)
    from store_upload_Inl [OF this] tabs show ?thesis by simp
  qed
qed

lemma remove_quietly_tables:
  "sessions (remove_quietly env p w) = sessions w \<and> answers (remove_quietly env p w) = answers w"
  by (auto simp: remove_quietly_def fs_do_eq split: option.splits)

lemma upload_answer_Inr:
  assumes "upload_answer env sid qid filename content w = (Inr (tr, path), w')"
  shows "content \<noteq> [] \<and> files w' path = Some content \<and>
     sessions w' = set_status sid ''in_progress'' (sessions w) \<and>
     (case find (\<lambda>a. session_id a = sid \<and> question_id a = qid) (answers w) of
        Some existing \<Rightarrow> answers w' = set_audio (a_id existing) path tr (answers w)
      | None \<Rightarrow> (\<exists>aid. aid \<notin> a_id ` set (answers w) \<and>
                   answers w' = answers w @ [new_answer aid sid qid path tr]))"
proof -
  obtain r1 vars w1 where b: "upload_body env sid qid filename content w = (r1, vars, w1)"
    by (metis prod_cases3)
  with assms have "r1 = Inr (tr, path)" "w1 = w'"
    by (auto simp: upload_answer_def split: sum.splits exn.splits prod.splits)
  with b upload_body_Inr [of env sid qid filename content w tr path vars w'] show ?thesis by simp
qed

lemma upload_answer_Inl:
  assumes "upload_answer env sid qid filename content w = (Inl e, w')"
  shows "sessions w' = sessions w \<and> answers w' = answers w"
proof -
  obtain r1 vars w1 where b: "upload_body env sid qid filename content w = (r1, vars, w1)"
    by (metis prod_cases3)
  with assms obtain e1 where r1: "r1 = Inl e1"
    by (cases r1) (auto simp: upload_answer_def)
  from upload_body_Inl [OF b [unfolded r1]] have tabs: "sessions w1 = sessions w" "answers w1 = answers w"
    by simp_all
  from assms b r1 tabs show ?thesis
    by (cases e1; cases vars) (auto simp: upload_answer_def remove_quietly_tables)
qed

subsection \<open>upload when nothing fails\<close>

lemma save_audio_calm:
  assumes "\<And>tr op. \<not> fs_fails env tr op"
  shows "\<exists>w'. save_audio env t f c w = (Inr (), w')"
  using assms by (simp add: save_audio_def move_into_place_def fs_do_eq Let_def split: option.splits)

lemma upload_txn_calm:
  assumes "\<And>tr q. \<not> store_busy env tr q"
    and "\<And>tr. uuid4 env tr \<notin> a_id ` set (answers w)"
  shows "\<exists>w'. upload_txn env sid qid path tr w = (Inr (), w')"
  using assms
  by (simp add: upload_txn_def db_exec_eq update_answer_def insert_answer_def update_status_def Let_def
      split: option.splits)

lemma upload_attempt_calm:
  assumes "\<And>tr q. \<not> store_busy env tr q"
    and "\<And>tr. uuid4 env tr \<notin> a_id ` set (answers w)"
  shows "\<exists>w'. get_db env (upload_txn env sid qid path tr) w = (Inr (), w')"
proof -
  from upload_txn_calm [OF assms(1), of "emit DbConnect w" sid qid path tr] assms(2)
  obtain w1 where "upload_txn env sid qid path tr (emit DbConnect w) = (Inr (), w1)" by auto
  with assms(1) show ?thesis by (simp add: get_db_def db_exec_eq)
qed

lemma upload_calm:
  assumes calm: "\<And>tr q. \<not> store_busy env tr q"
    and fs: "\<And>tr op. \<not> fs_fails env tr op"
    and ne: "content \<noteq> []"
    and fresh: "\<And>tr. uuid4 env tr \<notin> a_id ` set (answers w)"
  shows "\<exists>tr path w'. upload_answer env sid qid (Some name) content w = (Inr (tr, path), w')"
proof -
  let ?w1 = "emit (Fs Makedirs False) w"
  let ?u = "uuid4 env (trace ?w1)"
  let ?w2 = "emit (Uuid4 ?u) ?w1"
  let ?fp = "''uploads/'' @ ?u @ ''.'' @ file_extension name"
  from save_audio_calm [OF fs] obtain w3 where
    sv: "save_audio env (?fp @ ''.tmp'') ?fp content ?w2 = (Inr (), w3)" by blast
  from save_audio_tables [OF sv] have tabs: "answers w3 = answers w" by simp
  obtain t w4 where t: "transcribe env ?fp w3 = (t, w4)" by (cases "transcribe env ?fp w3")
  from transcribe_frame [OF t] tabs have a4: "answers w4 = answers w" by simp
  from upload_attempt_calm [OF calm, of w4 sid qid ?fp t] fresh a4
  obtain w5 where "get_db env (upload_txn env sid qid ?fp t) w4 = (Inr (), w5)" by auto
  then have "upload_db_retry env sid qid ?fp t 0 w4 = (Inr (), w5)"
    by (intro upload_retry_done) (simp_all add: max_retries_def)
  with t have "store_upload env sid qid ?fp w3 = (Inr (t, ?fp), (None, Some ?fp), w5)"
    by (simp add: store_upload_def)
  with sv fs ne have "upload_body env sid qid (Some name) content w = (Inr (t, ?fp), (None, Some ?fp), w5)"
    by (simp add: upload_body_def fs_do_eq Let_def)
  then have "upload_answer env sid qid (Some name) content w = (Inr (t, ?fp), w5)"
    by (simp add: upload_answer_def)
  then show ?thesis by blast
qed

subsection \<open>the statuses after analyze\<close>

lemma analyze_session_sessions:
  assumes "analyze_session env sid w = (r, w')"
  shows "(\<exists>e. r = Inl e \<and> sessions w' = sessions w) \<or>
         (r = Inr analysis_complete \<and> sessions w' = set_status sid ''analyzed'' (sessions w))"
proof -
  from analyze_retry_cases [OF assms [unfolded analyze_session_def]]
  show ?thesis
  proof
    assume "\<exists>e. r = Inl e \<and> sessions w' = sessions w \<and> answers w' = answers w"
    then show ?thesis by auto
  next
    assume "\<exists>w0 u. r = Inr analysis_complete \<and> sessions w0 = sessions w \<and> answers w0 = answers w
         \<and> get_db env (analyze_txn env sid) w0 = (Inr u, w')"
    then obtain w0 u where w0: "r = Inr analysis_complete" "sessions w0 = sessions w"
      "get_db env (analyze_txn env sid) w0 = (Inr u, w')"
      by blast
    from get_db_Inr [OF w0(3)] obtain w1 where
      w1: "analyze_txn env sid (emit DbConnect w0) = (Inr u, w1)" "w' = emit (Db Commit False) w1"
      by blast
    from analyze_txn_Inr [OF w1(1)] w0(1,2) w1(2) show ?thesis by simp
  qed
qed

lemma status_rank_le_analyzed: "status_rank st \<le> status_rank ''analyzed''"
  by (simp add: status_rank_def)

lemma set_status_nth:
  "i < length rows \<Longrightarrow>
     status (set_status sid st rows ! i) = (if s_id (rows ! i) = sid then st else status (rows ! i))"
  by (simp add: set_status_def)

lemma set_status_length [simp]: "length (set_status sid st rows) = length rows"
  by (simp add: set_status_def)

subsection \<open>upload: the rows of one pair\<close>

lemma find_filter_conv:
  "find P xs = (case filter P xs of [] \<Rightarrow> None | x # ys \<Rightarrow> Some x)"
  by (induction xs) auto


lemma filter_set_audio:
  "filter (\<lambda>a. session_id a = sid \<and> question_id a = qid) (set_audio aid path tr rows) =
     set_audio aid path tr (filter (\<lambda>a. session_id a = sid \<and> question_id a = qid) rows)"
  by (induction rows) (auto simp: set_audio_def)

lemma set_audio_length [simp]: "length (set_audio aid path tr rows) = length rows"
  by (simp add: set_audio_def)

lemma upload_calm_existing:
  assumes calm: "\<And>tr q. \<not> store_busy env tr q"
    and fs: "\<And>tr op. \<not> fs_fails env tr op"
    and ne: "content \<noteq> []"
    and fresh: "\<And>tr. find (\<lambda>a. session_id a = sid \<and> question_id a = qid) (answers w) = None
                  \<Longrightarrow> uuid4 env tr \<notin> a_id ` set (answers w)"
  shows "\<exists>tr path w'. upload_answer env sid qid (Some name) content w = (Inr (tr, path), w')"
proof -
  let ?w1 = "emit (Fs Makedirs False) w"
  let ?u = "uuid4 env (trace ?w1)"
  let ?w2 = "emit (Uuid4 ?u) ?w1"
  let ?fp = "''uploads/'' @ ?u @ ''.'' @ file_extension name"
  from save_audio_calm [OF fs] obtain w3 where
    sv: "save_audio env (?fp @ ''.tmp'') ?fp content ?w2 = (Inr (), w3)" by blast
  from save_audio_tables [OF sv] have tabs: "answers w3 = answers w" by simp
  obtain t w4 where t: "transcribe env ?fp w3 = (t, w4)" by (cases "transcribe env ?fp w3")
  from transcribe_frame [OF t] tabs have a4: "answers w4 = answers w" by simp
  have "\<exists>w5. upload_txn env sid qid ?fp t (emit DbConnect w4) = (Inr (), w5)"
    using calm fresh a4
    by (simp add: upload_txn_def db_exec_eq update_answer_def insert_answer_def update_status_def Let_def
        split: option.splits)
  then obtain w5 where "upload_txn env sid qid ?fp t (emit DbConnect w4) = (Inr (), w5)" by blast
  with calm have "get_db env (upload_txn env sid qid ?fp t) w4 = (Inr (), emit (Db Commit False) w5)"
    by (simp add: get_db_def db_exec_eq)
  then have "upload_db_retry env sid qid ?fp t 0 w4 = (Inr (), emit (Db Commit False) w5)"
    by (intro upload_retry_done) (simp_all add: max_retries_def)
  with t have "store_upload env sid qid ?fp w3
      = (Inr (t, ?fp), (None, Some ?fp), emit (Db Commit False) w5)"
    by (simp add: store_upload_def)
  with sv fs ne have "upload_body env sid qid (Some name) content w
      = (Inr (t, ?fp), (None, Some ?fp), emit (Db Commit False) w5)"
    by (simp add: upload_body_def fs_do_eq Let_def)
  then have "upload_answer env sid qid (Some name) content w = (Inr (t, ?fp), emit (Db Commit False) w5)"
    by (simp add: upload_answer_def)
  then show ?thesis by blast
qed

lemma upload_effect:
  assumes up: "upload_answer env sid qid filename content w = (Inr (tr, path), w')"
    and one: "length (filter (\<lambda>a. session_id a = sid \<and> question_id a = qid) (answers w)) \<le> 1"
  shows "\<exists>x. filter (\<lambda>a. session_id a = sid \<and> question_id a = qid) (answers w') = [x]
      \<and> audio_path x = Some path \<and> transcript x = Some tr
      \<and> (case filter (\<lambda>a. session_id a = sid \<and> question_id a = qid) (answers w) of
            [] \<Rightarrow> a_id x \<notin> a_id ` set (answers w) \<and> answers w' = answers w @ [x]
          | ex # rest \<Rightarrow> a_id x = a_id ex \<and> length (answers w') = length (answers w))"
proof (cases "filter (\<lambda>a. session_id a = sid \<and> question_id a = qid) (answers w)")
  case Nil
  then have "find (\<lambda>a. session_id a = sid \<and> question_id a = qid) (answers w) = None"
    by (simp add: find_filter_conv)
  with upload_answer_Inr [OF up] obtain aid where
    aid: "aid \<notin> a_id ` set (answers w)" "answers w' = answers w @ [new_answer aid sid qid path tr]"
    by auto
  with Nil show ?thesis
    by (intro exI [of _ "new_answer aid sid qid path tr"]) (simp add: new_answer_def)
next
  case (Cons ex rest)
  with one have rest: "rest = []" by simp
  from Cons have "find (\<lambda>a. session_id a = sid \<and> question_id a = qid) (answers w) = Some ex"
    by (simp add: find_filter_conv)
  with upload_answer_Inr [OF up] have a: "answers w' = set_audio (a_id ex) path tr (answers w)"
    by simp
  then have "filter (\<lambda>a. session_id a = sid \<and> question_id a = qid) (answers w')
      = [ex\<lparr>audio_path := Some path, transcript := Some tr\<rparr>]"
    using Cons rest by (simp add: filter_set_audio) (simp add: set_audio_def)
  with a Cons show ?thesis by simp
qed

subsection \<open>upload: what stays on disk after a failure\<close>

lemma upload_store_locked:
  assumes busy: "\<And>tr q. store_busy env tr q"
    and fs: "\<And>tr op. \<not> fs_fails env tr op"
    and ne: "content \<noteq> []"
  shows "\<exists>w'. upload_answer env sid qid (Some name) content w =
           (Inl (HTTPException 500 ''Database error after 3 retries: database is locked''), w')
       \<and> files w' (''uploads/'' @ uuid4 env (trace w @ [Fs Makedirs False]) @ ''.'' @ file_extension name)
            = Some content
       \<and> answers w' = answers w"
proof -
  let ?w1 = "emit (Fs Makedirs False) w"
  let ?u = "uuid4 env (trace ?w1)"
  let ?w2 = "emit (Uuid4 ?u) ?w1"
  let ?fp = "''uploads/'' @ ?u @ ''.'' @ file_extension name"
  from save_audio_calm [OF fs] obtain w3 where
    sv: "save_audio env (?fp @ ''.tmp'') ?fp content ?w2 = (Inr (), w3)" by blast
  from save_audio_tables [OF sv] have tabs: "answers w3 = answers w" by simp
  from save_audio_Inr [OF sv] have fl: "files w3 ?fp = Some content" by simp
  obtain t w4 where t: "transcribe env ?fp w3 = (t, w4)" by (cases "transcribe env ?fp w3")
  note f4 = transcribe_frame [OF t]
  have "\<And>v. \<exists>v'. get_db env (upload_txn env sid qid ?fp t) v = (Inl (Raised database_is_locked), v')"
    by (simp add: busy_upload_attempt [OF busy])
  from upload_exhausts [OF this, of w4] obtain w5 where
    w5: "upload_db_retry env sid qid ?fp t 0 w4 =
          (Inl (HTTPException 500 ''Database error after 3 retries: database is locked''), w5)"
        "answers w5 = answers w4"
    by blast
  from upload_db_retry_cases [OF w5(1)] have f5: "files w5 = files w4" by simp
  from w5(1) t have "store_upload env sid qid ?fp w3 =
      (Inl (HTTPException 500 ''Database error after 3 retries: database is locked''), (None, Some ?fp), w5)"
    by (simp add: store_upload_def)
  with sv fs ne have "upload_body env sid qid (Some name) content w =
      (Inl (HTTPException 500 ''Database error after 3 retries: database is locked''), (None, Some ?fp), w5)"
    by (simp add: upload_body_def fs_do_eq Let_def)
  then have "upload_answer env sid qid (Some name) content w =
      (Inl (HTTPException 500 ''Database error after 3 retries: database is locked''), w5)"
    by (simp add: upload_answer_def)
  moreover have "files w5 ?fp = Some content" using f5 f4 fl by simp
  moreover have "answers w5 = answers w" using w5(2) f4 tabs by simp
  ultimately show ?thesis by simp
qed

lemma upload_move_fails:
  assumes mv: "\<And>tr op. fs_fails env tr op = is_move op"
    and ne: "content \<noteq> []"
  shows "\<exists>w'. upload_answer env sid qid (Some name) content w = (Inl save_failed, w')
       \<and> files w' (''uploads/'' @ uuid4 env (trace w @ [Fs Makedirs False]) @ ''.'' @ file_extension name
                    @ ''.tmp'') = Some content
       \<and> answers w' = answers w"
proof -
  let ?w1 = "emit (Fs Makedirs False) w"
  let ?u = "uuid4 env (trace ?w1)"
  let ?w2 = "emit (Uuid4 ?u) ?w1"
  let ?fp = "''uploads/'' @ ?u @ ''.'' @ file_extension name"
  have "\<exists>w3. save_audio env (?fp @ ''.tmp'') ?fp content ?w2 = (Inl save_failed, w3)
      \<and> files w3 (?fp @ ''.tmp'') = Some content"
    by (simp add: save_audio_def move_into_place_def fs_do_eq Let_def mv split: option.splits)
  then obtain w3 where sv: "save_audio env (?fp @ ''.tmp'') ?fp content ?w2 = (Inl save_failed, w3)"
    and fl: "files w3 (?fp @ ''.tmp'') = Some content" by blast
  from save_audio_tables [OF sv] have tabs: "answers w3 = answers w" by simp
  from sv ne have "upload_body env sid qid (Some name) content w =
      (Inl save_failed, (Some (?fp @ ''.tmp''), Some ?fp), w3)"
    by (simp add: upload_body_def fs_do_eq Let_def mv)
  then have "upload_answer env sid qid (Some name) content w = (Inl save_failed, w3)"
    by (simp add: upload_answer_def save_failed_def)
  with fl tabs show ?thesis by simp
qed

subsection \<open>what is derived from the evaluator's result\<close>




subsection \<open>the calls of the reference generator\<close>

lemma gen_outcomes_append [simp]:
  "gen_outcomes qid (xs @ ys) = gen_outcomes qid xs @ gen_outcomes qid ys"
  by (simp add: gen_outcomes_def)

lemma gen_outcomes_single: "gen_outcomes qid [e] = outcome_for qid e"
  by (simp add: gen_outcomes_def)

lemma gen_outcomes_Nil [simp]: "gen_outcomes qid [] = []"
  by (simp add: gen_outcomes_def)

lemma retried_after_failure_Cons:
  "retried_only_after_failure os \<Longrightarrow> retried_only_after_failure (Inl e # os)"
  by (cases os) simp_all

lemma store_evaluation_gens:
  "gen_outcomes qid (trace (store_evaluation env a ref ev w)) = gen_outcomes qid (trace w)"
  by (auto simp: store_evaluation_def db_exec_eq gen_outcomes_single split: pyval.splits sum.splits)

lemma evaluate_and_store_gens:
  "gen_outcomes qid (trace (evaluate_and_store env q a ref w)) = gen_outcomes qid (trace w)"
  by (auto simp: evaluate_and_store_def Let_def store_evaluation_gens gen_outcomes_single
      split: sum.splits)

lemma update_status_gens:
  "update_status env sid st w = (r, w') \<Longrightarrow> gen_outcomes qid (trace w') = gen_outcomes qid (trace w)"
  by (auto simp: update_status_def db_exec_eq gen_outcomes_single split: if_splits)

lemma get_reference_gens:
  assumes "get_reference env q' question jd resume cache w = (res, c1, w1)"
  shows "(cache q' \<noteq> None \<and> c1 = cache \<and> trace w1 = trace w \<and> (\<exists>r. res = Inr r)) \<or>
         (cache q' = None \<and> (\<exists>e. res = Inl e \<and> c1 = cache
              \<and> trace w1 = trace w @ [Generate q' question jd resume (Inl e)])) \<or>
         (cache q' = None \<and> (\<exists>r. res = Inr r \<and> c1 = cache(q' \<mapsto> r)
              \<and> trace w1 = trace w @ [Generate q' question jd resume (Inr r)]))"
proof (cases "cache q'")
  case (Some r)
  with assms show ?thesis by (auto simp: get_reference_def)
next
  case None
  show ?thesis
  proof (cases "generate_reference_answer env (trace w) question jd resume")
    case (Inl e)
    with assms None have "res = Inl e \<and> c1 = cache
        \<and> trace w1 = trace w @ [Generate q' question jd resume (Inl e)]"
      by (auto simp: get_reference_def Let_def)
    with None show ?thesis by blast
  next
    case (Inr r)
    with assms None have "res = Inr r \<and> c1 = cache(q' \<mapsto> r)
        \<and> trace w1 = trace w @ [Generate q' question jd resume (Inr r)]"
      by (auto simp: get_reference_def Let_def)
    with None show ?thesis by blast
  qed
qed

lemma process_answer_gens:
  assumes "process_answer env qm jd resume a cache w = (c1, w1)"
  shows "\<exists>os. gen_outcomes qid (trace w1) = gen_outcomes qid (trace w) @ os \<and>
      ((cache qid \<noteq> None \<and> os = [] \<and> c1 qid \<noteq> None) \<or>
       (cache qid = None \<and> os = [] \<and> c1 qid = None) \<or>
       (cache qid = None \<and> (\<exists>e. os = [Inl e]) \<and> c1 qid = None) \<or>
       (cache qid = None \<and> (\<exists>r. os = [Inr r]) \<and> c1 qid \<noteq> None))"
proof (cases "eligible qm a")
  case False
  with assms have "c1 = cache" "w1 = w" by (simp_all add: process_answer_def)
  then show ?thesis by (cases "cache qid") auto
next
  case True
  obtain res c2 w2 where g: "get_reference env (question_id a) (question_text_of qm a) jd resume cache w
      = (res, c2, w2)"
    by (metis prod_cases3)
  with assms True have c1: "c1 = c2"
    and w1: "gen_outcomes qid (trace w1) = gen_outcomes qid (trace w2)"
    by (auto simp: process_answer_def evaluate_and_store_gens split: sum.splits)
  from get_reference_gens [OF g] show ?thesis
  proof (elim disjE conjE exE)
    assume "cache (question_id a) \<noteq> None" "c2 = cache" "trace w2 = trace w"
    with c1 w1 show ?thesis by (cases "cache qid") auto
  next
    fix e assume "cache (question_id a) = None" "c2 = cache"
      "trace w2 = trace w @ [Generate (question_id a) (question_text_of qm a) jd resume (Inl e)]"
    with c1 w1 show ?thesis
      by (cases "cache qid"; cases "question_id a = qid") (auto simp: gen_outcomes_single)
  next
    fix r assume "cache (question_id a) = None" "c2 = cache(question_id a \<mapsto> r)"
      "trace w2 = trace w @ [Generate (question_id a) (question_text_of qm a) jd resume (Inr r)]"
    with c1 w1 show ?thesis
      by (cases "cache qid"; cases "question_id a = qid") (auto simp: gen_outcomes_single)
  qed
qed

lemma process_answers_gens:
  "process_answers env qm jd resume as cache w = (c', w') \<Longrightarrow>
     \<exists>os. gen_outcomes qid (trace w') = gen_outcomes qid (trace w) @ os
        \<and> (cache qid \<noteq> None \<longrightarrow> os = []) \<and> retried_only_after_failure os"
proof (induction as arbitrary: cache w)
  case Nil
  then show ?case by simp
next
  case (Cons a as)
  obtain c1 w1 where st: "process_answer env qm jd resume a cache w = (c1, w1)"
    by (cases "process_answer env qm jd resume a cache w")
  with Cons.prems have rest: "process_answers env qm jd resume as c1 w1 = (c', w')" by simp
  from Cons.IH [OF rest] obtain os2 where
    os2: "gen_outcomes qid (trace w') = gen_outcomes qid (trace w1) @ os2"
      "c1 qid \<noteq> None \<longrightarrow> os2 = []" "retried_only_after_failure os2"
    by blast
  from process_answer_gens [OF st, of qid] obtain os1 where
    os1: "gen_outcomes qid (trace w1) = gen_outcomes qid (trace w) @ os1"
    and shape: "(cache qid \<noteq> None \<and> os1 = [] \<and> c1 qid \<noteq> None) \<or>
       (cache qid = None \<and> os1 = [] \<and> c1 qid = None) \<or>
       (cache qid = None \<and> (\<exists>e. os1 = [Inl e]) \<and> c1 qid = None) \<or>
       (cache qid = None \<and> (\<exists>r. os1 = [Inr r]) \<and> c1 qid \<noteq> None)"
    by blast
  have "(cache qid \<noteq> None \<longrightarrow> os1 @ os2 = []) \<and> retried_only_after_failure (os1 @ os2)"
    using shape os2(2,3) by (auto intro: retried_after_failure_Cons)
  with os1 os2(1) show ?case
    by (intro exI [of _ "os1 @ os2"]) simp
qed

lemma analyze_answers_gens:
  assumes "analyze_answers env sid session qs w = (r, w')"
  shows "\<exists>os. gen_outcomes qid (trace w') = gen_outcomes qid (trace w) @ os
        \<and> retried_only_after_failure os \<and> ((\<forall>tr q. \<not> store_busy env tr q) \<longrightarrow> isl r \<longrightarrow> os = [])"
proof -
  let ?b = "store_busy env (trace w) (SelectAnswers sid)"
  let ?w1 = "emit (Db (SelectAnswers sid) ?b) w"
  have 1: "gen_outcomes qid (trace ?w1) = gen_outcomes qid (trace w)"
    by (simp add: gen_outcomes_single)
  show ?thesis
  proof (cases "?b \<or> (\<exists>e. q_text_by_id_of qs = Inl e)")
    case True
    with assms have "w' = ?w1"
      by (auto simp: analyze_answers_def db_exec_eq split: if_splits sum.splits)
    with 1 show ?thesis by simp
  next
    case False
    then obtain qm where qm: "q_text_by_id_of qs = Inr qm" and nb: "\<not> ?b"
      by (cases "q_text_by_id_of qs") auto
    obtain c2 w2 where loop: "process_answers env qm (jd_text_of session) (resume_text_of session)
        (filter (\<lambda>a. session_id a = sid) (answers ?w1)) Map.empty ?w1 = (c2, w2)"
      by (metis surj_pair)
    with assms qm nb have fin: "update_status env sid ''analyzed'' w2 = (r, w')"
      by (simp add: analyze_answers_def db_exec_eq)
    from process_answers_gens [OF loop, of qid] obtain os where
      os: "gen_outcomes qid (trace w2) = gen_outcomes qid (trace ?w1) @ os" "retried_only_after_failure os"
      by blast
    have "(\<forall>tr q. \<not> store_busy env tr q) \<longrightarrow> \<not> isl r"
      using fin by (auto simp: update_status_def db_exec_eq)
    with os 1 update_status_gens [OF fin, of qid] show ?thesis by auto
  qed
qed

lemma analyze_txn_gens:
  assumes "analyze_txn env sid w = (r, w')"
  shows "\<exists>os. gen_outcomes qid (trace w') = gen_outcomes qid (trace w) @ os
        \<and> retried_only_after_failure os \<and> ((\<forall>tr q. \<not> store_busy env tr q) \<longrightarrow> isl r \<longrightarrow> os = [])"
proof -
  let ?b = "store_busy env (trace w) (SelectSession sid)"
  let ?w1 = "emit (Db (SelectSession sid) ?b) w"
  have 1: "gen_outcomes qid (trace ?w1) = gen_outcomes qid (trace w)"
    by (simp add: gen_outcomes_single)
  from assms have "w' = ?w1 \<or> (\<exists>session qs. analyze_answers env sid session qs ?w1 = (r, w'))
       \<or> (update_status env sid ''analyzed'' ?w1 = (r, w') \<and> ((\<forall>tr q. \<not> store_busy env tr q) \<longrightarrow> \<not> isl r))"
    by (auto simp: analyze_txn_def db_exec_eq update_status_def split: if_splits sum.splits option.splits)
  then show ?thesis
  proof (elim disjE exE conjE)
    assume "w' = ?w1"
    with 1 show ?thesis by simp
  next
    fix session qs assume "analyze_answers env sid session qs ?w1 = (r, w')"
    from analyze_answers_gens [OF this, of qid] 1 show ?thesis by simp
  next
    assume "update_status env sid ''analyzed'' ?w1 = (r, w')"
      and "(\<forall>tr q. \<not> store_busy env tr q) \<longrightarrow> \<not> isl r"
    with update_status_gens [of env sid "''analyzed''" ?w1 r w' qid] 1 show ?thesis by simp
  qed
qed

lemma analyze_attempt_gens:
  assumes "get_db env (analyze_txn env sid) w = (r, w')"
  shows "\<exists>os. gen_outcomes qid (trace w') = gen_outcomes qid (trace w) @ os
        \<and> retried_only_after_failure os \<and> ((\<forall>tr q. \<not> store_busy env tr q) \<longrightarrow> isl r \<longrightarrow> os = [])"
proof -
  obtain r1 w1 where b: "analyze_txn env sid (emit DbConnect w) = (r1, w1)"
    by (cases "analyze_txn env sid (emit DbConnect w)")
  from analyze_txn_gens [OF b, of qid] obtain os where
    os: "gen_outcomes qid (trace w1) = gen_outcomes qid (trace w) @ os" "retried_only_after_failure os"
      "(\<forall>tr q. \<not> store_busy env tr q) \<longrightarrow> isl r1 \<longrightarrow> os = []"
    by (auto simp: gen_outcomes_single)
  from assms b have "gen_outcomes qid (trace w') = gen_outcomes qid (trace w1)"
    and "(\<forall>tr q. \<not> store_busy env tr q) \<longrightarrow> isl r \<longrightarrow> isl r1"
    by (auto simp: get_db_def db_exec_eq gen_outcomes_def split: sum.splits if_splits)
  with os show ?thesis by auto
qed

lemma analyze_retry_gens:
  "(\<And>tr q. \<not> store_busy env tr q) \<Longrightarrow> analyze_retry env sid n w = (r, w') \<Longrightarrow>
     \<exists>os. gen_outcomes qid (trace w') = gen_outcomes qid (trace w) @ os \<and> retried_only_after_failure os"
proof (induction env sid n w rule: analyze_retry.induct)
  case (1 env sid retry_count w)
  note calm = "1.prems"(1)
  show ?case
  proof (cases "retry_count < max_db_retries")
    case False
    with "1.prems"(2) show ?thesis
      by (auto simp: analyze_retry.simps [of env sid retry_count w])
  next
    case True
    obtain r1 w1 where att: "get_db env (analyze_txn env sid) w = (r1, w1)"
      by (cases "get_db env (analyze_txn env sid) w")
    from analyze_attempt_gens [OF att, of qid] calm obtain os1 where
      os1: "gen_outcomes qid (trace w1) = gen_outcomes qid (trace w) @ os1" "retried_only_after_failure os1"
        "isl r1 \<longrightarrow> os1 = []"
      by auto
    show ?thesis
    proof (cases r1)
      case (Inr u)
      with True att "1.prems"(2) have "w' = w1"
        by (auto simp: analyze_retry.simps [of env sid retry_count w])
      with os1 show ?thesis by auto
    next
      case (Inl db_error)
      with os1 have same: "gen_outcomes qid (trace w1) = gen_outcomes qid (trace w)" by simp
      show ?thesis
      proof (cases "max_db_retries \<le> retry_count + 1")
        case True
        with \<open>retry_count < max_db_retries\<close> att Inl "1.prems"(2) have "w' = w1"
          by (auto simp: analyze_retry.simps [of env sid retry_count w] split: exn.splits)
        with same show ?thesis by simp
      next
        case False
        let ?w2 = "emit (Sleep (2 / 10 * of_nat (retry_count + 1))) w1"
        from \<open>retry_count < max_db_retries\<close> att Inl False "1.prems"(2)
        have rec: "analyze_retry env sid (retry_count + 1) ?w2 = (r, w')"
          by (simp add: analyze_retry.simps [of env sid retry_count w])
        from "1.IH" [OF \<open>retry_count < max_db_retries\<close> att [symmetric] _ False calm rec] Inl same
        show ?thesis by (auto simp: gen_outcomes_single)
      qed
    qed
  qed
qed

lemma process_answer_calls_generator:
  assumes "eligible qm a" and "cache (question_id a) = None"
  shows "\<exists>res. gen_outcomes (question_id a) (trace (snd (process_answer env qm jd resume a cache w)))
           = gen_outcomes (question_id a) (trace w) @ [res]"
proof -
  obtain res c2 w2 where g: "get_reference env (question_id a) (question_text_of qm a) jd resume cache w
      = (res, c2, w2)"
    by (metis prod_cases3)
  from get_reference_gens [OF g] assms(2)
  have "trace w2 = trace w @ [Generate (question_id a) (question_text_of qm a) jd resume res]"
    by auto
  then have 2: "gen_outcomes (question_id a) (trace w2) = gen_outcomes (question_id a) (trace w) @ [res]"
    by (simp add: gen_outcomes_single)
  from g assms(1) have "gen_outcomes (question_id a) (trace (snd (process_answer env qm jd resume a cache w)))
      = gen_outcomes (question_id a) (trace w2)"
    by (auto simp: process_answer_def evaluate_and_store_gens split: sum.splits)
  with 2 show ?thesis by simp
qed

lemma get_reference_failure:
  "get_reference env qid question jd resume cache w = (Inl e, cache', w1) \<Longrightarrow> cache' = cache"
  by (drule get_reference_gens) auto

lemma w_three_calm:
  "gen_outcomes ''q1'' (trace (snd (analyze_session env_calm ''s1'' w_three))) = [Inr ''An ideal answer'']
   \<and> map score (answers (snd (analyze_session env_calm ''s1'' w_three))) = [SqlInt 8, SqlInt 8, SqlInt 8]"
  by (simp add: model_defs example_defs w_three_def analyze_retry.simps [of _ _ 0] gen_outcomes_def)

lemma w_three_second_try:
  "gen_outcomes ''q1'' (trace (snd (analyze_session env_second_try ''s1'' w_three)))
     = [Inl (PyErr ''RuntimeError'' ''no reference''), Inr ''An ideal answer'']
   \<and> map score (answers (snd (analyze_session env_second_try ''s1'' w_three)))
     = [SqlNull, SqlInt 8, SqlInt 8]"
  by (simp add: model_defs example_defs env_second_try_def w_three_def analyze_retry.simps [of _ _ 0]
      gen_outcomes_def)

lemma w_one_first_commit_fails:
  "fst (analyze_session env_first_commit_fails ''s1'' w_one) = Inr analysis_complete
   \<and> gen_outcomes ''q1'' (trace (snd (analyze_session env_first_commit_fails ''s1'' w_one)))
     = [Inr ''An ideal answer'', Inr ''An ideal answer'']"
  by (simp add: model_defs example_defs env_first_commit_fails_def analyze_retry.simps [of _ _ 0]
      analyze_retry.simps [of _ _ "Suc 0"] analyze_retry.simps [of _ _ 1] gen_outcomes_def)

subsection \<open>what one call of analyze persists for an answer\<close>


lemma set_evaluation_row:
  "x \<in> set (set_evaluation aid sc fb ma rows) \<Longrightarrow>
   \<exists>a\<in>set rows. x = (if a_id a = aid then a\<lparr>score := sc, feedback := Some fb, model_answer := ma\<rparr> else a)"
  unfolding set_evaluation_def set_map by (erule imageE) (rule bexI)












subsection \<open>analyze when the store is never locked\<close>



subsection \<open>a call whose every attempt is refused\<close>

lemma contended_from_append:
  "contended_from p (xs @ ys) =
     (contended_from p xs \<and> contended_from (if xs = [] then p else is_refusal (last xs)) ys)"
  by (induction xs arbitrary: p) auto

lemma contended_from_commit: "Db Commit False \<in> set xs \<Longrightarrow> \<not> contended_from p xs"
  by (induction xs arbitrary: p) auto

lemma call_events_append [simp]: "trace w' = trace w @ evs \<Longrightarrow> call_events w w' = evs"
  by (simp add: call_events_def)

lemma update_status_Inl:
  "update_status env sid st v = (Inl e, v1) \<Longrightarrow>
     e = Raised database_is_locked \<and> trace v1 = trace v @ [Db (UpdateStatus sid st) True]"
  by (auto simp: update_status_def db_exec_eq split: if_splits)

lemma analyze_answers_Inl:
  assumes "analyze_answers env sid session qs v = (Inl e, v1)" and "is_refusal (last (trace v1))"
  shows "e = Raised database_is_locked"
proof (cases "store_busy env (trace v) (SelectAnswers sid)")
  case True
  with assms(1) show ?thesis by (simp add: analyze_answers_def db_exec_eq)
next
  case False
  show ?thesis
  proof (cases "q_text_by_id_of qs")
    case (Inl x)
    with assms(1) False have "v1 = emit (Db (SelectAnswers sid) False) v"
      by (simp add: analyze_answers_def db_exec_eq)
    with assms(2) show ?thesis by simp
  next
    case (Inr qm)
    obtain c2 w2 where "process_answers env qm (jd_text_of session) (resume_text_of session)
        (filter (\<lambda>a. session_id a = sid) (answers v)) Map.empty
        (emit (Db (SelectAnswers sid) False) v) = (c2, w2)"
      by (cases "process_answers env qm (jd_text_of session) (resume_text_of session)
        (filter (\<lambda>a. session_id a = sid) (answers v)) Map.empty
        (emit (Db (SelectAnswers sid) False) v)")
    with assms(1) False Inr have "update_status env sid ''analyzed'' w2 = (Inl e, v1)"
      by (simp add: analyze_answers_def db_exec_eq)
    from update_status_Inl [OF this] show ?thesis by simp
  qed
qed

lemma analyze_txn_Inl:
  assumes "analyze_txn env sid v = (Inl e, v1)" and "is_refusal (last (trace v1))"
  shows "e = Raised database_is_locked"
proof -
  let ?b = "store_busy env (trace v) (SelectSession sid)"
  let ?w1 = "emit (Db (SelectSession sid) ?b) v"
  from assms(1) have "(v1 = ?w1 \<and> (?b \<longrightarrow> e = Raised database_is_locked))
       \<or> (\<exists>session qs. analyze_answers env sid session qs ?w1 = (Inl e, v1))
       \<or> update_status env sid ''analyzed'' ?w1 = (Inl e, v1)"
    by (auto simp: analyze_txn_def db_exec_eq split: if_splits sum.splits option.splits)
  then show ?thesis
  proof (elim disjE conjE exE)
    assume "v1 = ?w1" "?b \<longrightarrow> e = Raised database_is_locked"
    with assms(2) show ?thesis by simp
  next
    fix session qs
    assume "analyze_answers env sid session qs ?w1 = (Inl e, v1)"
    from analyze_answers_Inl [OF this assms(2)] show ?thesis .
  next
    assume "update_status env sid ''analyzed'' ?w1 = (Inl e, v1)"
    from update_status_Inl [OF this] show ?thesis by simp
  qed
qed

lemma insert_answer_Inl:
  "insert_answer env sid qid path tr v = (Inl e, v1) \<Longrightarrow> is_refusal (last (trace v1)) \<Longrightarrow>
     e = Raised database_is_locked"
  by (auto simp: insert_answer_def Let_def db_exec_eq split: if_splits)

lemma update_answer_Inl:
  "update_answer env aid path tr v = (Inl e, v1) \<Longrightarrow> e = Raised database_is_locked"
  by (auto simp: update_answer_def db_exec_eq split: if_splits)

lemma upload_txn_Inl:
  assumes "upload_txn env sid qid path tr v = (Inl e, v1)" and "is_refusal (last (trace v1))"
  shows "e = Raised database_is_locked"
proof (cases "store_busy env (trace v) (SelectAnswerId sid qid)")
  case True
  with assms(1) show ?thesis by (simp add: upload_txn_def db_exec_eq)
next
  case False
  let ?w1 = "emit (Db (SelectAnswerId sid qid) False) v"
  let ?step = "case find (\<lambda>a. session_id a = sid \<and> question_id a = qid) (answers ?w1) of
                 Some existing \<Rightarrow> update_answer env (a_id existing) path tr ?w1
               | None \<Rightarrow> insert_answer env sid qid path tr ?w1"
  obtain r2 w2 where st: "?step = (r2, w2)" by (cases ?step)
  show ?thesis
  proof (cases r2)
    case (Inl e2)
    with assms(1) False st have "e = e2" "v1 = w2" by (simp_all add: upload_txn_def db_exec_eq)
    with st Inl assms(2) show ?thesis
      by (auto split: option.splits dest: update_answer_Inl insert_answer_Inl)
  next
    case (Inr u)
    with assms(1) False st have "update_status env sid ''in_progress'' w2 = (Inl e, v1)"
      by (simp add: upload_txn_def db_exec_eq)
    from update_status_Inl [OF this] show ?thesis by simp
  qed
qed

lemma get_db_trace:
  assumes "get_db env body w = (r, w')"
    and "\<And>v r1 v1. body v = (r1, v1) \<Longrightarrow> extends v v1"
  shows "\<exists>evs. trace w' = trace w @ evs"
proof -
  obtain r1 w1 where b: "body (emit DbConnect w) = (r1, w1)"
    by (cases "body (emit DbConnect w)")
  from assms(2) [OF b] obtain bevs where t: "trace w1 = trace w @ DbConnect # bevs"
    by (auto simp: extends_def)
  from assms(1) b have "trace w' = trace w1 @ [DbRollback] \<or> trace w' = trace w1 @ [Db Commit False]
      \<or> trace w' = trace w1 @ [Db Commit True, DbRollback]"
    by (auto simp: get_db_def db_exec_eq split: sum.splits if_splits)
  with t show ?thesis by auto
qed

lemma attempt_contended:
  assumes att: "get_db env body v = (r, v1)"
    and ext: "\<And>u r1 u1. body u = (r1, u1) \<Longrightarrow> extends u u1"
    and lastev: "\<And>u e u1. body u = (Inl e, u1) \<Longrightarrow> is_refusal (last (trace u1))
                   \<Longrightarrow> e = Raised database_is_locked"
    and tr: "trace v1 = trace v @ evs"
    and c: "contended_from p (evs @ rest)"
  shows "r = Inl (Raised database_is_locked) \<and> contended_from False rest"
proof -
  obtain r0 v0 where b: "body (emit DbConnect v) = (r0, v0)"
    by (cases "body (emit DbConnect v)")
  from ext [OF b] obtain bevs where t0: "trace v0 = trace v @ DbConnect # bevs"
    by (auto simp: extends_def)
  show ?thesis
  proof (cases r0)
    case (Inl e)
    with att b have r: "r = Inl e" and "trace v1 = trace v0 @ [DbRollback]"
      by (auto simp: get_db_def)
    with t0 tr have evs: "evs = (DbConnect # bevs) @ [DbRollback]" by simp
    from c have c': "contended_from p ((DbConnect # bevs) @ (DbRollback # rest))"
      by (simp add: evs)
    then have "is_refusal (last (DbConnect # bevs))" and rest: "contended_from False rest"
      unfolding contended_from_append [of p "DbConnect # bevs"] by simp_all
    with t0 have "is_refusal (last (trace v0))" by simp
    from lastev [OF b [unfolded Inl] this] r rest show ?thesis by simp
  next
    case (Inr u)
    show ?thesis
    proof (cases "store_busy env (trace v0) Commit")
      case True
      with att b Inr have r: "r = Inl (Raised database_is_locked)"
        and "trace v1 = trace v0 @ [Db Commit True, DbRollback]"
        by (auto simp: get_db_def db_exec_eq)
      with t0 tr have evs: "evs = (DbConnect # bevs) @ [Db Commit True, DbRollback]" by simp
      from c have "contended_from p (((DbConnect # bevs) @ [Db Commit True, DbRollback]) @ rest)"
        by (simp add: evs)
      then have "contended_from False rest"
        unfolding contended_from_append [of p "(DbConnect # bevs) @ [Db Commit True, DbRollback]"]
        by simp
      with r show ?thesis by simp
    next
      case False
      with att b Inr have "trace v1 = trace v0 @ [Db Commit False]"
        by (auto simp: get_db_def db_exec_eq)
      with t0 tr have "evs = (DbConnect # bevs) @ [Db Commit False]" by simp
      then have "Db Commit False \<in> set (evs @ rest)" by simp
      with c show ?thesis by (simp add: contended_from_commit)
    qed
  qed
qed

lemma analyze_attempt_trace:
  "get_db env (analyze_txn env sid) w = (r, w') \<Longrightarrow> \<exists>evs. trace w' = trace w @ evs"
  by (erule get_db_trace) (rule analyze_txn_extends)

lemma upload_attempt_trace:
  "get_db env (upload_txn env sid qid path tr) w = (r, w') \<Longrightarrow> \<exists>evs. trace w' = trace w @ evs"
  by (erule get_db_trace) (rule upload_txn_extends)

lemma analyze_attempt_contended:
  assumes "get_db env (analyze_txn env sid) v = (r, v1)"
    and "trace v1 = trace v @ evs" and "contended_from p (evs @ rest)"
  shows "r = Inl (Raised database_is_locked) \<and> contended_from False rest"
proof (rule attempt_contended [OF assms(1) _ _ assms(2,3)])
  show "extends u u1" if "analyze_txn env sid u = (r1, u1)" for u r1 u1
    using that by (rule analyze_txn_extends)
  show "e = Raised database_is_locked"
    if "analyze_txn env sid u = (Inl e, u1)" "is_refusal (last (trace u1))" for u e u1
    using that by (rule analyze_txn_Inl)
qed

lemma upload_attempt_contended:
  assumes "get_db env (upload_txn env sid qid path tr) v = (r, v1)"
    and "trace v1 = trace v @ evs" and "contended_from p (evs @ rest)"
  shows "r = Inl (Raised database_is_locked) \<and> contended_from False rest"
proof (rule attempt_contended [OF assms(1) _ _ assms(2,3)])
  show "extends u u1" if "upload_txn env sid qid path tr u = (r1, u1)" for u r1 u1
    using that by (rule upload_txn_extends)
  show "e = Raised database_is_locked"
    if "upload_txn env sid qid path tr u = (Inl e, u1)" "is_refusal (last (trace u1))" for u e u1
    using that by (rule upload_txn_Inl)
qed

lemma analyze_retry_trace:
  "analyze_retry env sid n w = (r, w') \<Longrightarrow> \<exists>evs. trace w' = trace w @ evs"
proof (induction env sid n w rule: analyze_retry.induct)
  case (1 env sid n w)
  show ?case
  proof (cases "n < max_db_retries")
    case False
    with "1.prems" show ?thesis by (auto simp: analyze_retry.simps [of env sid n w])
  next
    case True
    obtain r1 w1 where att: "get_db env (analyze_txn env sid) w = (r1, w1)"
      by (cases "get_db env (analyze_txn env sid) w")
    from analyze_attempt_trace [OF att] obtain evs1 where t1: "trace w1 = trace w @ evs1"
      by blast
    show ?thesis
    proof (cases r1)
      case (Inr u)
      with True att "1.prems" t1 show ?thesis
        by (auto simp: analyze_retry.simps [of env sid n w])
    next
      case (Inl e)
      show ?thesis
      proof (cases "max_db_retries \<le> n + 1")
        case True
        with \<open>n < max_db_retries\<close> att Inl "1.prems" t1 show ?thesis
          by (auto simp: analyze_retry.simps [of env sid n w] split: exn.splits)
      next
        case False
        let ?w2 = "emit (Sleep (2 / 10 * of_nat (n + 1))) w1"
        from \<open>n < max_db_retries\<close> att Inl False "1.prems"
        have rec: "analyze_retry env sid (n + 1) ?w2 = (r, w')"
          by (simp add: analyze_retry.simps [of env sid n w])
        from "1.IH" [OF \<open>n < max_db_retries\<close> att [symmetric] Inl False rec] t1
        show ?thesis by auto
      qed
    qed
  qed
qed

lemma analyze_retry_contended:
  "analyze_retry env sid n w = (r, w') \<Longrightarrow> n < max_db_retries \<Longrightarrow> trace w' = trace w @ evs \<Longrightarrow>
     contended_from False evs \<Longrightarrow>
     r = Inl (HTTPException 500 ''Database error during analysis after 3 retries: database is locked'')
     \<and> attempts evs = max_db_retries - n
     \<and> sleeps evs = map (\<lambda>k. 2 / 10 * of_nat k) [n + 1 ..< max_db_retries]"
proof (induction env sid n w arbitrary: evs rule: analyze_retry.induct)
  case (1 env sid n w)
  note lt = \<open>n < max_db_retries\<close>
  obtain r1 w1 where att: "get_db env (analyze_txn env sid) w = (r1, w1)"
    by (cases "get_db env (analyze_txn env sid) w")
  from analyze_attempt_trace [OF att] obtain evs1 where t1: "trace w1 = trace w @ evs1"
    by blast
  from analyze_attempt_counts [OF att] t1 have cnt: "attempts evs1 = 1" "sleeps evs1 = []"
    by simp_all
  show ?case
  proof (cases r1)
    case (Inr u)
    with att lt "1.prems"(1) have "w' = w1" by (simp add: analyze_retry.simps [of env sid n w])
    with t1 "1.prems"(3) have "evs = evs1" by simp
    with analyze_attempt_contended [OF att t1, of False "[]"]
      "1.prems"(4) Inr show ?thesis by simp
  next
    case (Inl e)
    show ?thesis
    proof (cases "max_db_retries \<le> n + 1")
      case True
      with lt have n: "n + 1 = max_db_retries" by simp
      from analyze_retry_last [OF n att [unfolded Inl]] "1.prems"(1)
      have res: "(r, w') = (case e of HTTPException code detail \<Rightarrow> (Inl e, w1)
          | Raised x \<Rightarrow> (Inl (HTTPException 500
               (''Database error during analysis after 3 retries: '' @ err_str x)), w1))"
        by simp
      then have "w' = w1" by (cases e) simp_all
      with t1 "1.prems"(3) have evs: "evs = evs1" by simp
      with analyze_attempt_contended [OF att t1, of False "[]"]
        "1.prems"(4) Inl have "e = Raised database_is_locked" by simp
      with res have "r = Inl (HTTPException 500
          ''Database error during analysis after 3 retries: database is locked'')"
        by (simp add: database_is_locked_def)
      with evs cnt n show ?thesis by simp
    next
      case False
      let ?d = "2 / 10 * of_nat (n + 1)"
      let ?v = "emit (Sleep ?d) w1"
      from False have n1: "n + 1 < max_db_retries" by simp
      from analyze_retry_again [OF n1 att [unfolded Inl]] "1.prems"(1)
      have rec: "analyze_retry env sid (n + 1) ?v = (r, w')" by simp
      from analyze_retry_trace [OF rec] obtain evs2 where t2: "trace w' = trace ?v @ evs2" by blast
      with t1 "1.prems"(3) have evs: "evs = evs1 @ Sleep ?d # evs2" by simp
      from analyze_attempt_contended [OF att t1, of False "Sleep ?d # evs2"]
        "1.prems"(4) evs have c2: "contended_from False evs2" by simp
      from "1.IH" [OF lt att [symmetric] Inl False rec n1 t2 c2]
      have ih: "r = Inl (HTTPException 500
            ''Database error during analysis after 3 retries: database is locked'')"
        "attempts evs2 = max_db_retries - (n + 1)"
        "sleeps evs2 = map (\<lambda>k. 2 / 10 * of_nat k) [n + 1 + 1 ..< max_db_retries]"
        by simp_all
      have "[n + 1 ..< max_db_retries] = (n + 1) # [n + 1 + 1 ..< max_db_retries]"
        using n1 by (simp add: upt_conv_Cons)
      with ih evs cnt n1 show ?thesis
        by (simp add: attempts_def sleeps_def)
    qed
  qed
qed


lemma upload_db_retry_trace:
  "upload_db_retry env sid qid path tr n w = (r, w') \<Longrightarrow> \<exists>evs. trace w' = trace w @ evs"
proof (induction env sid qid path tr n w rule: upload_db_retry.induct)
  case (1 env sid qid path tr n w)
  show ?case
  proof (cases "n < max_retries")
    case False
    with "1.prems" show ?thesis by (auto simp: upload_db_retry.simps [of env sid qid path tr n w])
  next
    case True
    obtain r1 w1 where att: "get_db env (upload_txn env sid qid path tr) w = (r1, w1)"
      by (cases "get_db env (upload_txn env sid qid path tr) w")
    from upload_attempt_trace [OF att] obtain evs1 where t1: "trace w1 = trace w @ evs1"
      by blast
    show ?thesis
    proof (cases r1)
      case (Inr u)
      with True att "1.prems" t1 show ?thesis
        by (auto simp: upload_db_retry.simps [of env sid qid path tr n w])
    next
      case (Inl e)
      show ?thesis
      proof (cases "max_retries \<le> n + 1")
        case True
        with \<open>n < max_retries\<close> att Inl "1.prems" t1 show ?thesis
          by (auto simp: upload_db_retry.simps [of env sid qid path tr n w])
      next
        case False
        let ?w2 = "emit (Sleep (1 / 10 * of_nat (n + 1))) w1"
        from \<open>n < max_retries\<close> att Inl False "1.prems"
        have rec: "upload_db_retry env sid qid path tr (n + 1) ?w2 = (r, w')"
          by (simp add: upload_db_retry.simps [of env sid qid path tr n w])
        from "1.IH" [OF \<open>n < max_retries\<close> att [symmetric] Inl False rec] t1
        show ?thesis by auto
      qed
    qed
  qed
qed

lemma upload_retry_contended:
  "upload_db_retry env sid qid path tr n w = (r, w') \<Longrightarrow> n < max_retries \<Longrightarrow>
     trace w' = trace w @ evs \<Longrightarrow> contended_from False evs \<Longrightarrow>
     r = Inl (HTTPException 500 ''Database error after 3 retries: database is locked'')
     \<and> attempts evs = max_retries - n
     \<and> sleeps evs = map (\<lambda>k. 1 / 10 * of_nat k) [n + 1 ..< max_retries]"
proof (induction env sid qid path tr n w arbitrary: evs rule: upload_db_retry.induct)
  case (1 env sid qid path tr n w)
  note lt = \<open>n < max_retries\<close>
  obtain r1 w1 where att: "get_db env (upload_txn env sid qid path tr) w = (r1, w1)"
    by (cases "get_db env (upload_txn env sid qid path tr) w")
  from upload_attempt_trace [OF att] obtain evs1 where t1: "trace w1 = trace w @ evs1"
    by blast
  from upload_attempt_counts [OF att] t1 have cnt: "attempts evs1 = 1" "sleeps evs1 = []"
    by simp_all
  show ?case
  proof (cases r1)
    case (Inr u)
    with att lt "1.prems"(1) have "w' = w1"
      by (simp add: upload_db_retry.simps [of env sid qid path tr n w])
    with t1 "1.prems"(3) have "evs = evs1" by simp
    with upload_attempt_contended [OF att t1, of False "[]"] "1.prems"(4) Inr show ?thesis by simp
  next
    case (Inl e)
    show ?thesis
    proof (cases "max_retries \<le> n + 1")
      case True
      with lt have n: "n + 1 = max_retries" by simp
      from upload_retry_last [OF n att [unfolded Inl]] "1.prems"(1)
      have res: "r = Inl (HTTPException 500 (''Database error after 3 retries: '' @ exn_str e))"
        and "w' = w1"
        by simp_all
      with t1 "1.prems"(3) have evs: "evs = evs1" by simp
      with upload_attempt_contended [OF att t1, of False "[]"] "1.prems"(4) Inl
      have "e = Raised database_is_locked" by simp
      with res have "r = Inl (HTTPException 500 ''Database error after 3 retries: database is locked'')"
        by (simp add: database_is_locked_def)
      with evs cnt n show ?thesis by simp
    next
      case False
      let ?d = "1 / 10 * of_nat (n + 1)"
      let ?v = "emit (Sleep ?d) w1"
      from False have n1: "n + 1 < max_retries" by simp
      from upload_retry_again [OF n1 att [unfolded Inl]] "1.prems"(1)
      have rec: "upload_db_retry env sid qid path tr (n + 1) ?v = (r, w')" by simp
      from upload_db_retry_trace [OF rec] obtain evs2 where t2: "trace w' = trace ?v @ evs2" by blast
      with t1 "1.prems"(3) have evs: "evs = evs1 @ Sleep ?d # evs2" by simp
      from upload_attempt_contended [OF att t1, of False "Sleep ?d # evs2"]
        "1.prems"(4) evs have c2: "contended_from False evs2" by simp
      from "1.IH" [OF lt att [symmetric] Inl False rec n1 t2 c2]
      have ih: "r = Inl (HTTPException 500 ''Database error after 3 retries: database is locked'')"
        "attempts evs2 = max_retries - (n + 1)"
        "sleeps evs2 = map (\<lambda>k. 1 / 10 * of_nat k) [n + 1 + 1 ..< max_retries]"
        by simp_all
      have "[n + 1 ..< max_retries] = (n + 1) # [n + 1 + 1 ..< max_retries]"
        using n1 by (simp add: upt_conv_Cons)
      with ih evs cnt n1 show ?thesis
        by (simp add: attempts_def sleeps_def)
    qed
  qed
qed

lemma analyze_refused:
  assumes "contended (call_events w (snd (analyze_session env sid w)))"
  shows "fst (analyze_session env sid w) =
           Inl (HTTPException 500 ''Database error during analysis after 3 retries: database is locked'')
       \<and> attempts (call_events w (snd (analyze_session env sid w))) = 3
       \<and> sleeps (call_events w (snd (analyze_session env sid w))) = [2 / 10 * 1, 2 / 10 * 2]
       \<and> sessions (snd (analyze_session env sid w)) = sessions w
       \<and> answers (snd (analyze_session env sid w)) = answers w"
proof -
  obtain r w' where an: "analyze_retry env sid 0 w = (r, w')"
    by (cases "analyze_retry env sid 0 w")
  from analyze_retry_trace [OF an] obtain evs where t: "trace w' = trace w @ evs" by blast
  with assms an have c: "contended_from False evs"
    by (simp add: analyze_session_def contended_def)
  have "[0 + 1 ..< max_db_retries] = [1, 2]"
    by (simp add: max_db_retries_def upt_conv_Cons)
  with analyze_retry_contended [OF an _ t c]
  have "r = Inl (HTTPException 500 ''Database error during analysis after 3 retries: database is locked'')"
    "attempts evs = 3" "sleeps evs = [2 / 10 * 1, 2 / 10 * 2]"
    by (simp_all add: max_db_retries_def)
  moreover from this(1) analyze_retry_cases [OF an]
  have "sessions w' = sessions w \<and> answers w' = answers w" by auto
  ultimately show ?thesis using an t by (simp add: analyze_session_def)
qed

lemma upload_refused:
  assumes "contended (call_events w (snd (upload_db_retry env sid qid path tr 0 w)))"
  shows "fst (upload_db_retry env sid qid path tr 0 w) =
           Inl (HTTPException 500 ''Database error after 3 retries: database is locked'')
       \<and> attempts (call_events w (snd (upload_db_retry env sid qid path tr 0 w))) = 3
       \<and> sleeps (call_events w (snd (upload_db_retry env sid qid path tr 0 w))) = [1 / 10 * 1, 1 / 10 * 2]
       \<and> sessions (snd (upload_db_retry env sid qid path tr 0 w)) = sessions w
       \<and> answers (snd (upload_db_retry env sid qid path tr 0 w)) = answers w"
proof -
  obtain r w' where up: "upload_db_retry env sid qid path tr 0 w = (r, w')"
    by (cases "upload_db_retry env sid qid path tr 0 w")
  from upload_db_retry_trace [OF up] obtain evs where t: "trace w' = trace w @ evs" by blast
  with assms up have c: "contended_from False evs"
    by (simp add: contended_def)
  have "[0 + 1 ..< max_retries] = [1, 2]"
    by (simp add: max_retries_def upt_conv_Cons)
  with upload_retry_contended [OF up _ t c]
  have "r = Inl (HTTPException 500 ''Database error after 3 retries: database is locked'')"
    "attempts evs = 3" "sleeps evs = [1 / 10 * 1, 1 / 10 * 2]"
    by (simp_all add: max_retries_def)
  moreover from this(1) upload_db_retry_cases [OF up]
  have "sessions w' = sessions w \<and> answers w' = answers w" by auto
  ultimately show ?thesis using up t by simp
qed

lemmas retry_unfold =
  analyze_retry.simps [of _ _ 0] analyze_retry.simps [of _ _ "Suc 0"] analyze_retry.simps [of _ _ 1]
  analyze_retry.simps [of _ _ 2] analyze_retry.simps [of _ _ "Suc (Suc 0)"] analyze_retry.simps [of _ _ "Suc 1"]
  upload_db_retry.simps [of _ _ _ _ _ 0] upload_db_retry.simps [of _ _ _ _ _ "Suc 0"]
  upload_db_retry.simps [of _ _ _ _ _ 1] upload_db_retry.simps [of _ _ _ _ _ 2]
  upload_db_retry.simps [of _ _ _ _ _ "Suc (Suc 0)"] upload_db_retry.simps [of _ _ _ _ _ "Suc 1"]

lemmas upload_defs =
  upload_txn_def update_answer_def insert_answer_def max_retries_def

lemma busy_runs_contended:
  "contended (call_events w_one (snd (analyze_session env_busy ''s1'' w_one)))"
  "contended (call_events w_one (snd (upload_db_retry env_busy ''s1'' ''q1'' ''uploads/a.webm'' ''hello'' 0 w_one)))"
  by (simp_all add: model_defs upload_defs example_defs env_busy_def retry_unfold
      contended_def call_events_def)

lemma commit_busy_runs_contended:
  "contended (call_events w_one (snd (analyze_session env_commit_busy ''s1'' w_one)))"
  "contended (call_events w_one (snd (upload_db_retry env_commit_busy ''s1'' ''q1'' ''uploads/a.webm'' ''hello'' 0 w_one)))"
  by (simp_all add: model_defs upload_defs example_defs env_commit_busy_def retry_unfold
      contended_def call_events_def)

lemma commit_busy_events:
  "call_events w_one (snd (upload_db_retry env_commit_busy ''s1'' ''q1'' ''uploads/a.webm'' ''hello'' 0 w_one)) =
     [DbConnect, Db (SelectAnswerId ''s1'' ''q1'') False, Db (UpdateAudio ''a1'') False,
      Db (UpdateStatus ''s1'' ''in_progress'') False, Db Commit True, DbRollback, Sleep (1 / 10),
      DbConnect, Db (SelectAnswerId ''s1'' ''q1'') False, Db (UpdateAudio ''a1'') False,
      Db (UpdateStatus ''s1'' ''in_progress'') False, Db Commit True, DbRollback, Sleep (1 / 5),
      DbConnect, Db (SelectAnswerId ''s1'' ''q1'') False, Db (UpdateAudio ''a1'') False,
      Db (UpdateStatus ''s1'' ''in_progress'') False, Db Commit True, DbRollback]"
  by (simp add: model_defs upload_defs example_defs env_commit_busy_def retry_unfold call_events_def)

subsection \<open>one failing answer among the eligible ones\<close>









section \<open>The claims\<close>

text \<open>
  C1. Re-analysis leaves scored answers alone: when \<open>analyze\<close> runs twice in a row on
  a store whose answer ids are unique (\<open>id\<close> is the primary key), every answer that
  has a score before the second call is the same row after it, so its score, its
  feedback and its model answer are unchanged. The second call may succeed or fail.
\<close>

theorem analyze_twice_keeps_scored:
  assumes ids: "distinct (map a_id (answers w))"
    and first: "analyze_session env sid w = (r1, w1)"
    and second: "analyze_session env sid w1 = (r2, w2)"
  shows "length (answers w2) = length (answers w1) \<and>
     (\<forall>i < length (answers w1). score (answers w1 ! i) \<noteq> SqlNull \<longrightarrow> answers w2 ! i = answers w1 ! i)"
proof -
  from analyze_session_answers [OF first] obtain g1 :: "answer_row \<Rightarrow> answer_row"
    where g1: "answers w1 = map g1 (answers w)" "\<And>x. a_id (g1 x) = a_id x"
    by blast
  then have "map a_id (answers w1) = map a_id (answers w)" by simp
  with ids have ids1: "distinct (map a_id (answers w1))" by simp
  from analyze_session_answers [OF second] obtain g :: "answer_row \<Rightarrow> answer_row"
    where g: "answers w2 = map g (answers w1)"
      "\<And>x. a_id x \<notin> a_id ` {a \<in> set (answers w1). session_id a = sid \<and> score a = SqlNull} \<Longrightarrow> g x = x"
    by blast
  have "answers w2 ! i = answers w1 ! i"
    if i: "i < length (answers w1)" and sc: "score (answers w1 ! i) \<noteq> SqlNull" for i
  proof -
    let ?x = "answers w1 ! i"
    have "a_id ?x \<notin> a_id ` {a \<in> set (answers w1). session_id a = sid \<and> score a = SqlNull}"
    proof
      assume "a_id ?x \<in> a_id ` {a \<in> set (answers w1). session_id a = sid \<and> score a = SqlNull}"
      then obtain a where a: "a \<in> set (answers w1)" "score a = SqlNull" "a_id a = a_id ?x" by auto
      from ids1 have "inj_on a_id (set (answers w1))" by (simp add: distinct_map)
      with a(1,3) i have "a = ?x" by (auto dest: inj_onD)
      with a(2) sc show False by simp
    qed
    then have "g ?x = ?x" by (rule g(2))
    with g(1) i show ?thesis by simp
  qed
  with g(1) show ?thesis by simp
qed

theorem analyze_twice_keeps_scored_witness:
  "distinct (map a_id (answers w_one)) \<and>
   score (answers (snd (analyze_session env_calm ''s1'' w_one)) ! 0) = SqlInt 8 \<and>
   answers (snd (analyze_session env_calm ''s1'' (snd (analyze_session env_calm ''s1'' w_one)))) ! 0
     = answers (snd (analyze_session env_calm ''s1'' w_one)) ! 0"
proof -
  let ?w1 = "snd (analyze_session env_calm ''s1'' w_one)"
  let ?w2 = "snd (analyze_session env_calm ''s1'' ?w1)"
  have ids: "distinct (map a_id (answers w_one))"
    by (simp add: w_one_def)
  have sc: "score (answers ?w1 ! 0) = SqlInt 8" and len: "length (answers ?w1) = 1"
    by (simp_all add: w_one_analyzed)
  have "\<forall>i < length (answers ?w1). score (answers ?w1 ! i) \<noteq> SqlNull \<longrightarrow> answers ?w2 ! i = answers ?w1 ! i"
    using analyze_twice_keeps_scored [OF ids, of env_calm "''s1''" _ ?w1 _ ?w2]
    by (metis prod.collapse)
  with sc len ids show ?thesis by simp
qed

text \<open>
  C2. The claim fails on the code. When no session has the given id and the store never
  reports contention, \<open>analyze_session\<close> does end with the 404, but only after the
  handler of the retry loop has counted the \<open>HTTPException\<close> as a failed attempt
  twice: the transaction runs three times and the call sleeps 0.2 s and 0.4 s before
  the error reaches the caller.
\<close>

theorem not_found_is_retried:
  assumes "\<And>tr q. \<not> store_busy env tr q"
    and "find (\<lambda>s. s_id s = sid) (sessions w) = None"
  shows "fst (analyze_session env sid w) = Inl (HTTPException 404 ''Session not found'')
       \<and> trace (snd (analyze_session env sid w)) = trace w @
            [DbConnect, Db (SelectSession sid) False, DbRollback, Sleep (2 / 10 * 1),
             DbConnect, Db (SelectSession sid) False, DbRollback, Sleep (2 / 10 * 2),
             DbConnect, Db (SelectSession sid) False, DbRollback]
       \<and> attempts (trace (snd (analyze_session env sid w))) = attempts (trace w) + 3
       \<and> sleeps (trace (snd (analyze_session env sid w))) = sleeps (trace w) @ [2 / 10 * 1, 2 / 10 * 2]"
  by (simp add: analyze_missing [OF assms] attempts_def sleeps_def)

theorem not_found_is_retried_witness:
  "(\<forall>tr q. \<not> store_busy env_calm tr q)
   \<and> find (\<lambda>s. s_id s = ''s9'') (sessions w_one) = None
   \<and> fst (analyze_session env_calm ''s9'' w_one) = Inl (HTTPException 404 ''Session not found'')
   \<and> attempts (trace (snd (analyze_session env_calm ''s9'' w_one))) = 3
   \<and> sleeps (trace (snd (analyze_session env_calm ''s9'' w_one))) = [1 / 5, 2 / 5]"
proof -
  have calm: "\<And>tr q. \<not> store_busy env_calm tr q"
    by (simp add: env_calm_def)
  have missing: "find (\<lambda>s. s_id s = ''s9'') (sessions w_one) = None"
    by (simp add: w_one_def session_s1_def)
  have t: "trace w_one = []" by (simp add: w_one_def)
  from not_found_is_retried [OF calm missing] calm missing t show ?thesis
    by (simp add: attempts_def sleeps_def)
qed

text \<open>
  C3. The claim fails on the code: \<open>upload_answer\<close> writes \<open>in_progress\<close> whatever the
  status is, so an upload for an analyzed session moves it back. What holds:
  \<open>analyze_session\<close> never lowers a status (it leaves the sessions as they are or
  sets the one session to \<open>analyzed\<close>); \<open>upload_answer\<close> never lowers the status of
  a session that is not yet \<open>analyzed\<close>, changes no other session, and when it
  succeeds the session it names is \<open>in_progress\<close>.
\<close>

theorem status_after_each_operation:
  assumes "analyze_session env sid w = (ra, wa)"
    and "upload_answer env sid qid filename content w = (ru, wu)"
  shows "length (sessions wa) = length (sessions w)
       \<and> (\<forall>i < length (sessions w).
             status_rank (status (sessions w ! i)) \<le> status_rank (status (sessions wa ! i)))
       \<and> length (sessions wu) = length (sessions w)
       \<and> (\<forall>i < length (sessions w). status (sessions w ! i) \<noteq> ''analyzed'' \<longrightarrow>
             status_rank (status (sessions w ! i)) \<le> status_rank (status (sessions wu ! i)))
       \<and> (\<forall>i < length (sessions w). s_id (sessions w ! i) \<noteq> sid \<longrightarrow>
             status (sessions wu ! i) = status (sessions w ! i))
       \<and> (\<forall>i < length (sessions w). s_id (sessions w ! i) = sid \<longrightarrow> (\<exists>res. ru = Inr res) \<longrightarrow>
             status (sessions wu ! i) = ''in_progress'')"
proof -
  have a: "length (sessions wa) = length (sessions w)
       \<and> (\<forall>i < length (sessions w).
             status_rank (status (sessions w ! i)) \<le> status_rank (status (sessions wa ! i)))"
    using analyze_session_sessions [OF assms(1)]
    by (auto simp: set_status_nth status_rank_le_analyzed)
  have u: "sessions wu = sessions w \<and> (\<exists>e. ru = Inl e) \<or>
           sessions wu = set_status sid ''in_progress'' (sessions w)"
  proof (cases ru)
    case (Inl e)
    with upload_answer_Inl [of env sid qid filename content w e wu] assms(2) show ?thesis by simp
  next
    case (Inr res)
    with upload_answer_Inr [of env sid qid filename content w "fst res" "snd res" wu] assms(2)
    show ?thesis by simp
  qed
  then have "length (sessions wu) = length (sessions w)
       \<and> (\<forall>i < length (sessions w). status (sessions w ! i) \<noteq> ''analyzed'' \<longrightarrow>
             status_rank (status (sessions w ! i)) \<le> status_rank (status (sessions wu ! i)))
       \<and> (\<forall>i < length (sessions w). s_id (sessions w ! i) \<noteq> sid \<longrightarrow>
             status (sessions wu ! i) = status (sessions w ! i))
       \<and> (\<forall>i < length (sessions w). s_id (sessions w ! i) = sid \<longrightarrow> (\<exists>res. ru = Inr res) \<longrightarrow>
             status (sessions wu ! i) = ''in_progress'')"
    by (auto simp: set_status_nth status_rank_def split: if_splits)
  with a show ?thesis by simp
qed



theorem upload_reopens_analyzed_session:
  "status (sessions (snd (analyze_session env_calm ''s1'' w_one)) ! 0) = ''analyzed''
   \<and> (\<exists>res. fst (upload_answer env_calm ''s1'' ''q1'' (Some ''again.webm'') ''bytes''
                  (snd (analyze_session env_calm ''s1'' w_one))) = Inr res)
   \<and> status (sessions (snd (upload_answer env_calm ''s1'' ''q1'' (Some ''again.webm'') ''bytes''
                  (snd (analyze_session env_calm ''s1'' w_one)))) ! 0) = ''in_progress''
   \<and> \<not> status_rank (status (sessions (snd (analyze_session env_calm ''s1'' w_one)) ! 0))
        \<le> status_rank (status (sessions (snd (upload_answer env_calm ''s1'' ''q1'' (Some ''again.webm'')
              ''bytes'' (snd (analyze_session env_calm ''s1'' w_one)))) ! 0))"
proof -
  let ?w1 = "snd (analyze_session env_calm ''s1'' w_one)"
  let ?up = "upload_answer env_calm ''s1'' ''q1'' (Some ''again.webm'') ''bytes'' ?w1"
  have s1: "sessions ?w1 = [session_s1\<lparr>status := ''analyzed''\<rparr>]"
    and a1: "a_id ` set (answers ?w1) = {''a1''}"
    by (simp_all add: w_one_analyzed new_answer_def)
  have calm: "\<And>tr q. \<not> store_busy env_calm tr q" and fs: "\<And>tr op. \<not> fs_fails env_calm tr op"
    by (simp_all add: env_calm_def)
  have "\<And>tr. uuid4 env_calm tr \<noteq> ''a1''"
    by (simp add: env_calm_def)
  then have fresh: "\<And>tr. uuid4 env_calm tr \<notin> a_id ` set (answers ?w1)"
    by (simp add: a1)
  from upload_calm [OF calm fs _ fresh, of "''bytes''" "''s1''" "''q1''" "''again.webm''"]
  obtain tr path w2 where up: "?up = (Inr (tr, path), w2)" by auto
  from upload_answer_Inr [OF up] s1
  have "sessions w2 = [session_s1\<lparr>status := ''in_progress''\<rparr>]"
    by (simp add: set_status_def session_s1_def)
  with up s1 show ?thesis by (simp add: status_rank_def)
qed

theorem status_after_each_operation_witness:
  "status_rank (status (sessions w_one ! 0))
     \<le> status_rank (status (sessions (snd (analyze_session env_calm ''s1'' w_one)) ! 0))
   \<and> status (sessions w_one ! 0) \<noteq> ''analyzed''
   \<and> (\<exists>res. fst (upload_answer env_calm ''s1'' ''q1'' (Some ''a.webm'') ''bytes'' w_one) = Inr res)
   \<and> status (sessions (snd (upload_answer env_calm ''s1'' ''q1'' (Some ''a.webm'') ''bytes'' w_one)) ! 0)
       = ''in_progress''"
proof -
  let ?an = "analyze_session env_calm ''s1'' w_one"
  let ?up = "upload_answer env_calm ''s1'' ''q1'' (Some ''a.webm'') ''bytes'' w_one"
  have calm: "\<And>tr q. \<not> store_busy env_calm tr q" and fs: "\<And>tr op. \<not> fs_fails env_calm tr op"
    by (simp_all add: env_calm_def)
  have fresh: "\<And>tr. uuid4 env_calm tr \<notin> a_id ` set (answers w_one)"
    by (simp add: w_one_def new_answer_def env_calm_def)
  from upload_calm [OF calm fs _ fresh, of "''bytes''" "''s1''" "''q1''" "''a.webm''"]
  obtain tr path w2 where up: "?up = (Inr (tr, path), w2)" by auto
  have s: "sessions w_one = [session_s1]" "s_id session_s1 = ''s1''" "status session_s1 = ''created''"
    by (simp_all add: w_one_def session_s1_def)
  from status_after_each_operation [of env_calm "''s1''" w_one "fst ?an" "snd ?an" "''q1''"
      "Some ''a.webm''" "''bytes''" "fst ?up" "snd ?up"] up s
  show ?thesis by simp
qed

text \<open>
  C6. Two uploads in a row for one pair \<open>(session_id, question_id)\<close> that both
  succeed leave exactly one answer row for the pair, provided the table held at most
  one such row before (the handlers never make a second one): after the first upload
  there is one row, after the second there is one row with the same id, the table has
  the same length, and the row carries the audio path and the transcript of the second
  upload. When the table held no row for the pair, the first upload appended a row
  whose id was not in the table; when it held one, the first upload kept that row's id.
\<close>

theorem upload_twice_one_row:
  assumes "length (filter (\<lambda>a. session_id a = sid \<and> question_id a = qid) (answers w)) \<le> 1"
    and "upload_answer env sid qid f1 c1 w = (Inr (t1, p1), w1)"
    and "upload_answer env sid qid f2 c2 w1 = (Inr (t2, p2), w2)"
  shows "\<exists>x1 x2.
       filter (\<lambda>a. session_id a = sid \<and> question_id a = qid) (answers w1) = [x1]
     \<and> filter (\<lambda>a. session_id a = sid \<and> question_id a = qid) (answers w2) = [x2]
     \<and> a_id x2 = a_id x1
     \<and> length (answers w2) = length (answers w1)
     \<and> audio_path x2 = Some p2 \<and> transcript x2 = Some t2
     \<and> (case filter (\<lambda>a. session_id a = sid \<and> question_id a = qid) (answers w) of
           [] \<Rightarrow> a_id x1 \<notin> a_id ` set (answers w) \<and> answers w1 = answers w @ [x1]
         | ex # rest \<Rightarrow> a_id x1 = a_id ex \<and> length (answers w1) = length (answers w))"
proof -
  from upload_effect [OF assms(2,1)] obtain x1 where
    x1: "filter (\<lambda>a. session_id a = sid \<and> question_id a = qid) (answers w1) = [x1]"
      "case filter (\<lambda>a. session_id a = sid \<and> question_id a = qid) (answers w) of
            [] \<Rightarrow> a_id x1 \<notin> a_id ` set (answers w) \<and> answers w1 = answers w @ [x1]
          | ex # rest \<Rightarrow> a_id x1 = a_id ex \<and> length (answers w1) = length (answers w)"
    by blast
  then have "length (filter (\<lambda>a. session_id a = sid \<and> question_id a = qid) (answers w1)) \<le> 1"
    by simp
  from upload_effect [OF assms(3) this] x1(1) obtain x2 where
    "filter (\<lambda>a. session_id a = sid \<and> question_id a = qid) (answers w2) = [x2]"
    "audio_path x2 = Some p2" "transcript x2 = Some t2"
    "a_id x2 = a_id x1" "length (answers w2) = length (answers w1)"
    by auto
  with x1 show ?thesis by blast
qed

theorem upload_twice_one_row_witness:
  "length (filter (\<lambda>a. session_id a = ''s1'' \<and> question_id a = ''q1'') (answers w_fresh)) \<le> 1
   \<and> (\<exists>t1 p1 w1 t2 p2 w2 x2.
         upload_answer env_calm ''s1'' ''q1'' (Some ''first.webm'') ''one'' w_fresh = (Inr (t1, p1), w1)
       \<and> upload_answer env_calm ''s1'' ''q1'' (Some ''second.webm'') ''two'' w1 = (Inr (t2, p2), w2)
       \<and> filter (\<lambda>a. session_id a = ''s1'' \<and> question_id a = ''q1'') (answers w2) = [x2]
       \<and> audio_path x2 = Some p2 \<and> transcript x2 = Some t2
       \<and> length (answers w2) = 1)"
proof -
  have calm: "\<And>tr q. \<not> store_busy env_calm tr q" and fs: "\<And>tr op. \<not> fs_fails env_calm tr op"
    by (simp_all add: env_calm_def)
  have a: "answers w_fresh = []" by (simp add: w_fresh_def)
  from upload_calm_existing [OF calm fs, of "''one''" "''s1''" "''q1''" w_fresh "''first.webm''"] a
  obtain t1 p1 w1 where
    1: "upload_answer env_calm ''s1'' ''q1'' (Some ''first.webm'') ''one'' w_fresh = (Inr (t1, p1), w1)"
    by auto
  from upload_effect [OF 1] a obtain x1 where
    x1: "filter (\<lambda>a. session_id a = ''s1'' \<and> question_id a = ''q1'') (answers w1) = [x1]"
    by auto
  then have "find (\<lambda>a. session_id a = ''s1'' \<and> question_id a = ''q1'') (answers w1) \<noteq> None"
    by (simp add: find_filter_conv)
  with upload_calm_existing [OF calm fs, of "''two''" "''s1''" "''q1''" w1 "''second.webm''"]
  obtain t2 p2 w2 where
    2: "upload_answer env_calm ''s1'' ''q1'' (Some ''second.webm'') ''two'' w1 = (Inr (t2, p2), w2)"
    by auto
  from upload_twice_one_row [OF _ 1 2] a obtain y1 x2 where
    "filter (\<lambda>a. session_id a = ''s1'' \<and> question_id a = ''q1'') (answers w2) = [x2]"
    "audio_path x2 = Some p2" "transcript x2 = Some t2"
    "length (answers w2) = length (answers w1)" "answers w1 = answers w_fresh @ [y1]"
    by auto
  with 1 2 a show ?thesis by auto
qed

text \<open>
  C7. The claim fails on the code. The clean-up of lines 127-139 runs only for an
  exception that is not an \<open>HTTPException\<close>, and both failures the claim names reach
  the outer handler as an \<open>HTTPException\<close>, which line 125-126 raises again at once.
  When the store is locked on every attempt the audio stays at its final path although
  no answer row was written; when the move of the temporary file fails the temporary
  file stays.
\<close>

theorem failed_upload_leaves_files:
  assumes "\<And>tr q. store_busy envd tr q"
    and "\<And>tr op. \<not> fs_fails envd tr op"
    and "\<And>tr op. fs_fails envf tr op = is_move op"
    and "content \<noteq> []"
  shows "fst (upload_answer envd sid qid (Some name) content w) =
           Inl (HTTPException 500 ''Database error after 3 retries: database is locked'')
     \<and> files (snd (upload_answer envd sid qid (Some name) content w))
          (''uploads/'' @ uuid4 envd (trace w @ [Fs Makedirs False]) @ ''.'' @ file_extension name)
          = Some content
     \<and> answers (snd (upload_answer envd sid qid (Some name) content w)) = answers w
     \<and> fst (upload_answer envf sid qid (Some name) content w) = Inl save_failed
     \<and> files (snd (upload_answer envf sid qid (Some name) content w))
          (''uploads/'' @ uuid4 envf (trace w @ [Fs Makedirs False]) @ ''.'' @ file_extension name @ ''.tmp'')
          = Some content
     \<and> answers (snd (upload_answer envf sid qid (Some name) content w)) = answers w"
proof -
  from upload_store_locked [OF assms(1,2,4), of sid qid name w] obtain wd where
    d: "upload_answer envd sid qid (Some name) content w =
           (Inl (HTTPException 500 ''Database error after 3 retries: database is locked''), wd)"
       "files wd (''uploads/'' @ uuid4 envd (trace w @ [Fs Makedirs False]) @ ''.'' @ file_extension name)
            = Some content"
       "answers wd = answers w"
    by blast
  from upload_move_fails [OF assms(3,4), of sid qid name w] obtain wf where
    f: "upload_answer envf sid qid (Some name) content w = (Inl save_failed, wf)"
       "files wf (''uploads/'' @ uuid4 envf (trace w @ [Fs Makedirs False]) @ ''.'' @ file_extension name
                    @ ''.tmp'') = Some content"
       "answers wf = answers w"
    by blast
  from d f show ?thesis by simp
qed

theorem failed_upload_leaves_files_witness:
  "(\<forall>tr q. store_busy env_busy tr q) \<and> (\<forall>tr op. \<not> fs_fails env_busy tr op)
   \<and> (\<forall>tr op. fs_fails env_no_move tr op = is_move op)
   \<and> fst (upload_answer env_busy ''s1'' ''q1'' (Some ''rec.webm'') ''bytes'' w_fresh) =
           Inl (HTTPException 500 ''Database error after 3 retries: database is locked'')
   \<and> files (snd (upload_answer env_busy ''s1'' ''q1'' (Some ''rec.webm'') ''bytes'' w_fresh))
        ''uploads/uuid.webm'' = Some ''bytes''
   \<and> answers (snd (upload_answer env_busy ''s1'' ''q1'' (Some ''rec.webm'') ''bytes'' w_fresh)) = []
   \<and> fst (upload_answer env_no_move ''s1'' ''q1'' (Some ''rec.webm'') ''bytes'' w_fresh)
        = Inl (HTTPException 500 ''Failed to save audio file: file operation failed'')
   \<and> files (snd (upload_answer env_no_move ''s1'' ''q1'' (Some ''rec.webm'') ''bytes'' w_fresh))
        ''uploads/uuid.webm.tmp'' = Some ''bytes''
   \<and> answers (snd (upload_answer env_no_move ''s1'' ''q1'' (Some ''rec.webm'') ''bytes'' w_fresh)) = []"
proof -
  have busy: "\<And>tr q. store_busy env_busy tr q" and fs: "\<And>tr op. \<not> fs_fails env_busy tr op"
    by (simp_all add: env_busy_def env_calm_def)
  have mv: "\<And>tr op. fs_fails env_no_move tr op = is_move op"
    by (simp add: env_no_move_def)
  have u: "uuid4 env_busy (trace w_fresh @ [Fs Makedirs False]) = ''uuid''"
    "uuid4 env_no_move (trace w_fresh @ [Fs Makedirs False]) = ''uuid''"
    by (simp_all add: env_busy_def env_no_move_def env_calm_def w_fresh_def)
  have e: "file_extension ''rec.webm'' = ''webm''"
    by (simp add: file_extension_def after_last_dot_def)
  have a: "answers w_fresh = []" by (simp add: w_fresh_def)
  from failed_upload_leaves_files [OF busy fs mv, of "''bytes''" "''s1''" "''q1''" "''rec.webm''" w_fresh]
    busy fs mv u e a
  show ?thesis by (simp add: save_failed_def os_error_def)
qed

text \<open>
  C8. The claim fails on the code: the cache is created inside the retry loop, so when
  the store refuses a statement after the answers were processed (the commit, say), the
  transaction starts again with an empty cache and the generator is called again for an
  id it has already answered in this call. What holds, for every question id: within
  one attempt of the transaction a call of the generator is followed by another call for
  the same id only when it failed (so at most one call succeeds, and it is the last);
  the same holds for a whole \<open>analyze\<close> call when the store never reports contention.
  When the generator fails nothing is cached, and an eligible answer whose question id
  is not cached makes exactly one call of the generator.
\<close>

theorem reference_generated_once_per_attempt:
  "(get_db env (analyze_txn env sid) w = (r, w') \<longrightarrow>
      (\<exists>os. gen_outcomes qid (trace w') = gen_outcomes qid (trace w) @ os
            \<and> retried_only_after_failure os))
   \<and> ((\<forall>tr q. \<not> store_busy env tr q) \<longrightarrow>
      (\<exists>os. gen_outcomes qid (trace (snd (analyze_session env sid w))) = gen_outcomes qid (trace w) @ os
            \<and> retried_only_after_failure os))
   \<and> (get_reference env qid question jd resume cache w = (Inl e, cache', w1) \<longrightarrow> cache' = cache)
   \<and> (eligible qm a \<longrightarrow> cache (question_id a) = None \<longrightarrow>
      (\<exists>res. gen_outcomes (question_id a) (trace (snd (process_answer env qm jd resume a cache w)))
           = gen_outcomes (question_id a) (trace w) @ [res]))"
proof (intro conjI impI)
  assume "get_db env (analyze_txn env sid) w = (r, w')"
  from analyze_attempt_gens [OF this, of qid]
  show "\<exists>os. gen_outcomes qid (trace w') = gen_outcomes qid (trace w) @ os \<and> retried_only_after_failure os"
    by blast
next
  assume calm: "\<forall>tr q. \<not> store_busy env tr q"
  have "analyze_retry env sid 0 w = (fst (analyze_session env sid w), snd (analyze_session env sid w))"
    by (simp add: analyze_session_def)
  from analyze_retry_gens [OF _ this, of qid] calm
  show "\<exists>os. gen_outcomes qid (trace (snd (analyze_session env sid w))) = gen_outcomes qid (trace w) @ os
            \<and> retried_only_after_failure os"
    by blast
next
  assume "get_reference env qid question jd resume cache w = (Inl e, cache', w1)"
  then show "cache' = cache" by (rule get_reference_failure)
next
  assume "eligible qm a" "cache (question_id a) = None"
  then show "\<exists>res. gen_outcomes (question_id a) (trace (snd (process_answer env qm jd resume a cache w)))
           = gen_outcomes (question_id a) (trace w) @ [res]"
    by (rule process_answer_calls_generator)
qed

theorem reference_generated_once_per_attempt_witness:
  "(\<forall>tr q. \<not> store_busy env_calm tr q)
   \<and> gen_outcomes ''q1'' (trace (snd (analyze_session env_calm ''s1'' w_three))) = [Inr ''An ideal answer'']
   \<and> (\<forall>tr q. \<not> store_busy env_second_try tr q)
   \<and> gen_outcomes ''q1'' (trace (snd (analyze_session env_second_try ''s1'' w_three)))
        = [Inl (PyErr ''RuntimeError'' ''no reference''), Inr ''An ideal answer'']
   \<and> map score (answers (snd (analyze_session env_second_try ''s1'' w_three)))
        = [SqlNull, SqlInt 8, SqlInt 8]
   \<and> (\<exists>os. gen_outcomes ''q1'' (trace (snd (analyze_session env_second_try ''s1'' w_three))) = os
          \<and> retried_only_after_failure os)
   \<and> (\<exists>e w1. get_reference env_second_try ''q1'' (PStr ''Tell me about yourself'') ''jd'' ''cv''
                 Map.empty w_three = (Inl e, Map.empty, w1))"
proof -
  have calm: "\<forall>tr q. \<not> store_busy env_calm tr q" "\<forall>tr q. \<not> store_busy env_second_try tr q"
    by (simp_all add: env_second_try_def env_calm_def)
  have t: "trace w_three = []" by (simp add: w_three_def)
  have g: "\<exists>e w1. get_reference env_second_try ''q1'' (PStr ''Tell me about yourself'') ''jd'' ''cv''
                 Map.empty w_three = (Inl e, Map.empty, w1)"
    by (simp add: get_reference_def env_second_try_def t Let_def)
  from reference_generated_once_per_attempt
    [of env_second_try "''s1''" w_three _ _ "''q1''" "PStr ''Tell me about yourself''" "''jd''" "''cv''"
        Map.empty]
    calm(2) t
  have "\<exists>os. gen_outcomes ''q1'' (trace (snd (analyze_session env_second_try ''s1'' w_three))) = os
          \<and> retried_only_after_failure os"
    by simp
  with calm g w_three_calm w_three_second_try show ?thesis by simp
qed

theorem reference_generated_again_after_rollback:
  "fst (analyze_session env_first_commit_fails ''s1'' w_one) = Inr analysis_complete
   \<and> gen_outcomes ''q1'' (trace (snd (analyze_session env_first_commit_fails ''s1'' w_one)))
        = [Inr ''An ideal answer'', Inr ''An ideal answer'']
   \<and> \<not> retried_only_after_failure
          (gen_outcomes ''q1'' (trace (snd (analyze_session env_first_commit_fails ''s1'' w_one))))"
  using w_one_first_commit_fails by simp




text \<open>
  C5. A call whose every attempt fails with store contention (no commit of the call goes
  through, and each rollback directly follows a statement that the store refused, whichever
  statement it is: a \<open>SELECT\<close>, an \<open>UPDATE\<close>, the \<open>INSERT\<close> or the commit) runs its
  transaction exactly three times, in \<open>analyze_session\<close> as in the store loop of
  \<open>upload_answer\<close>; it sleeps between the attempts for the base (0.2 s and 0.1 s) times
  the number of the failed attempt, and then raises an \<open>HTTPException\<close> with status 500
  (not 404) that carries the store's message. No row of the store is changed.
\<close>

theorem retry_exhaustion:
  "(contended (call_events w (snd (analyze_session env sid w))) \<longrightarrow>
      fst (analyze_session env sid w) =
           Inl (HTTPException 500 ''Database error during analysis after 3 retries: database is locked'')
       \<and> attempts (call_events w (snd (analyze_session env sid w))) = 3
       \<and> sleeps (call_events w (snd (analyze_session env sid w))) = [2 / 10 * 1, 2 / 10 * 2]
       \<and> sessions (snd (analyze_session env sid w)) = sessions w
       \<and> answers (snd (analyze_session env sid w)) = answers w)
   \<and> (contended (call_events w (snd (upload_db_retry env sid qid path tr 0 w))) \<longrightarrow>
      fst (upload_db_retry env sid qid path tr 0 w) =
           Inl (HTTPException 500 ''Database error after 3 retries: database is locked'')
       \<and> attempts (call_events w (snd (upload_db_retry env sid qid path tr 0 w))) = 3
       \<and> sleeps (call_events w (snd (upload_db_retry env sid qid path tr 0 w))) = [1 / 10 * 1, 1 / 10 * 2]
       \<and> sessions (snd (upload_db_retry env sid qid path tr 0 w)) = sessions w
       \<and> answers (snd (upload_db_retry env sid qid path tr 0 w)) = answers w)"
  using analyze_refused [of w env sid] upload_refused [of w env sid qid path tr] by blast

theorem retry_exhaustion_witness:
  "contended (call_events w_one (snd (analyze_session env_busy ''s1'' w_one)))
   \<and> fst (analyze_session env_busy ''s1'' w_one) =
        Inl (HTTPException 500 ''Database error during analysis after 3 retries: database is locked'')
   \<and> attempts (call_events w_one (snd (analyze_session env_busy ''s1'' w_one))) = 3
   \<and> sleeps (call_events w_one (snd (analyze_session env_busy ''s1'' w_one))) = [1 / 5, 2 / 5]
   \<and> contended (call_events w_one (snd (analyze_session env_commit_busy ''s1'' w_one)))
   \<and> fst (analyze_session env_commit_busy ''s1'' w_one) =
        Inl (HTTPException 500 ''Database error during analysis after 3 retries: database is locked'')
   \<and> attempts (call_events w_one (snd (analyze_session env_commit_busy ''s1'' w_one))) = 3
   \<and> sleeps (call_events w_one (snd (analyze_session env_commit_busy ''s1'' w_one))) = [1 / 5, 2 / 5]
   \<and> answers (snd (analyze_session env_commit_busy ''s1'' w_one)) = answers w_one
   \<and> contended (call_events w_one
        (snd (upload_db_retry env_busy ''s1'' ''q1'' ''uploads/a.webm'' ''hello'' 0 w_one)))
   \<and> fst (upload_db_retry env_busy ''s1'' ''q1'' ''uploads/a.webm'' ''hello'' 0 w_one) =
        Inl (HTTPException 500 ''Database error after 3 retries: database is locked'')
   \<and> contended (call_events w_one
        (snd (upload_db_retry env_commit_busy ''s1'' ''q1'' ''uploads/a.webm'' ''hello'' 0 w_one)))
   \<and> fst (upload_db_retry env_commit_busy ''s1'' ''q1'' ''uploads/a.webm'' ''hello'' 0 w_one) =
        Inl (HTTPException 500 ''Database error after 3 retries: database is locked'')
   \<and> attempts (call_events w_one
        (snd (upload_db_retry env_commit_busy ''s1'' ''q1'' ''uploads/a.webm'' ''hello'' 0 w_one))) = 3
   \<and> sleeps (call_events w_one
        (snd (upload_db_retry env_commit_busy ''s1'' ''q1'' ''uploads/a.webm'' ''hello'' 0 w_one)))
        = [1 / 10, 1 / 5]"
  using retry_exhaustion [of w_one env_busy "''s1''" "''q1''" "''uploads/a.webm''" "''hello''"]
    retry_exhaustion [of w_one env_commit_busy "''s1''" "''q1''" "''uploads/a.webm''" "''hello''"]
    busy_runs_contended commit_busy_runs_contended
  by simp






end
